theory Spec2Isabelle
  imports Main
begin

section \<open>Python text: bytes, code points and the string methods the client calls\<close>

text \<open>
  A Python \<open>bytes\<close> object is a list of 8-bit characters; a Python \<open>str\<close> is a list of
  Unicode code points. String constants of the source are written with \<open>lit\<close>.
\<close>

type_synonym bytes = string
type_synonym str = "nat list"

definition lit :: "string \<Rightarrow> str" where
  "lit s = map of_char s"

text \<open>The exceptions the client can meet, as values.\<close>

datatype error =
    UnicodeDecodeError
  | UnicodeEncodeError
  | JSONDecodeError
  | KeyError
  | TypeError
  | IndexError
  | ValidationError
  | NameError
  | ConnectionError
  | BrokerError

subsection \<open>\<open>bytes.decode("utf-8")\<close> and the broker's encoding of a published \<open>str\<close>\<close>

definition is_cont :: "nat \<Rightarrow> bool" where
  "is_cont b \<longleftrightarrow> 128 \<le> b \<and> b < 192"

definition is_surrogate :: "nat \<Rightarrow> bool" where
  "is_surrogate c \<longleftrightarrow> 0xD800 \<le> c \<and> c \<le> 0xDFFF"

text \<open>
  A Unicode scalar value: a code point up to \<open>0x10FFFF\<close> that is no surrogate. These are
  the code points of text that can be encoded in UTF-8.
\<close>

definition scalar :: "nat \<Rightarrow> bool" where
  "scalar c \<longleftrightarrow> c \<le> 0x10FFFF \<and> \<not> is_surrogate c"

text \<open>
  Strict UTF-8 decoding of a list of byte values: overlong forms, surrogates, code points
  above \<open>0x10FFFF\<close>, stray continuation bytes and truncated sequences are rejected.
\<close>

fun utf8 :: "nat list \<Rightarrow> str option" where
  "utf8 [] = Some []"
| "utf8 (b # bs) =
     (if b < 0x80 then map_option (Cons b) (utf8 bs)
      else if 0xC0 \<le> b \<and> b < 0xE0 then
        (case bs of
           c1 # r \<Rightarrow>
             (let cp = (b - 0xC0) * 64 + (c1 - 0x80)
              in if is_cont c1 \<and> 0x80 \<le> cp then map_option (Cons cp) (utf8 r) else None)
         | _ \<Rightarrow> None)
      else if 0xE0 \<le> b \<and> b < 0xF0 then
        (case bs of
           c1 # c2 # r \<Rightarrow>
             (let cp = ((b - 0xE0) * 64 + (c1 - 0x80)) * 64 + (c2 - 0x80)
              in if is_cont c1 \<and> is_cont c2 \<and> 0x800 \<le> cp \<and> \<not> is_surrogate cp
                 then map_option (Cons cp) (utf8 r) else None)
         | _ \<Rightarrow> None)
      else if 0xF0 \<le> b \<and> b < 0xF8 then
        (case bs of
           c1 # c2 # c3 # r \<Rightarrow>
             (let cp = (((b - 0xF0) * 64 + (c1 - 0x80)) * 64 + (c2 - 0x80)) * 64 + (c3 - 0x80)
              in if is_cont c1 \<and> is_cont c2 \<and> is_cont c3 \<and> 0x10000 \<le> cp \<and> cp \<le> 0x10FFFF
                 then map_option (Cons cp) (utf8 r) else None)
         | _ \<Rightarrow> None)
      else None)"

definition decode_utf8 :: "bytes \<Rightarrow> error + str" where
  "decode_utf8 x = (case utf8 (map of_char x) of None \<Rightarrow> Inl UnicodeDecodeError | Some s \<Rightarrow> Inr s)"

definition encode_cp :: "nat \<Rightarrow> nat list option" where
  "encode_cp c =
     (if c < 0x80 then Some [c]
      else if c < 0x800 then Some [0xC0 + c div 64, 0x80 + c mod 64]
      else if c < 0x10000 then
        (if is_surrogate c then None
         else Some [0xE0 + c div 4096, 0x80 + c div 64 mod 64, 0x80 + c mod 64])
      else if c \<le> 0x10FFFF then
        Some [0xF0 + c div 262144, 0x80 + c div 4096 mod 64, 0x80 + c div 64 mod 64, 0x80 + c mod 64]
      else None)"

fun encode_utf8 :: "str \<Rightarrow> error + bytes" where
  "encode_utf8 [] = Inr []"
| "encode_utf8 (c # cs) =
     (case encode_cp c of
        None \<Rightarrow> Inl UnicodeEncodeError
      | Some bs \<Rightarrow>
          (case encode_utf8 cs of Inl e \<Rightarrow> Inl e | Inr rest \<Rightarrow> Inr (map char_of bs @ rest)))"

subsection \<open>\<open>str.strip()\<close> and \<open>str.lower()\<close>\<close>

text \<open>The characters \<open>str.strip()\<close> removes: those for which \<open>str.isspace()\<close> holds.\<close>

definition isspace :: "nat \<Rightarrow> bool" where
  "isspace c \<longleftrightarrow>
     (0x09 \<le> c \<and> c \<le> 0x0D) \<or> (0x1C \<le> c \<and> c \<le> 0x20) \<or> c = 0x85 \<or> c = 0xA0 \<or>
     c = 0x1680 \<or> (0x2000 \<le> c \<and> c \<le> 0x200A) \<or> c = 0x2028 \<or> c = 0x2029 \<or>
     c = 0x202F \<or> c = 0x205F \<or> c = 0x3000"

definition strip :: "str \<Rightarrow> str" where
  "strip s = rev (dropWhile isspace (rev (dropWhile isspace s)))"

definition isascii :: "str \<Rightarrow> bool" where
  "isascii s = list_all (\<lambda>c. c < 0x80) s"

definition ascii_lower :: "nat \<Rightarrow> nat" where
  "ascii_lower c = (if 0x41 \<le> c \<and> c \<le> 0x5A then c + 0x20 else c)"

text \<open>
  \<open>str.lower()\<close>: on an ASCII string the letters \<open>A\<close> to \<open>Z\<close> are mapped to \<open>a\<close> to \<open>z\<close>.
  On any other string the result comes from the Unicode character database of the
  interpreter, which is data outside the repository: it is the parameter \<open>U\<close>.
\<close>

type_synonym unicode_lower = "str \<Rightarrow> str"

definition lower :: "unicode_lower \<Rightarrow> str \<Rightarrow> str" where
  "lower U s = (if isascii s then map ascii_lower s else U s)"

section \<open>The \<open>json\<close> module\<close>

text \<open>
  The values \<open>json.loads\<close> returns. A number keeps its lexeme: no branch of the client
  computes with one.
\<close>

datatype pyobj =
    PNone
  | PBool bool
  | PNumber str
  | PStr str
  | PList "pyobj list"
  | PDict "(str \<times> pyobj) list"

subsection \<open>\<open>json.loads\<close>\<close>

definition skip_ws :: "str \<Rightarrow> str" where
  "skip_ws s = dropWhile (\<lambda>c. c = 0x20 \<or> c = 0x09 \<or> c = 0x0A \<or> c = 0x0D) s"

definition expect :: "nat \<Rightarrow> str \<Rightarrow> str option" where
  "expect c s = (case s of [] \<Rightarrow> None | x # r \<Rightarrow> if x = c then Some r else None)"

definition hexval :: "nat \<Rightarrow> nat option" where
  "hexval c =
     (if 0x30 \<le> c \<and> c \<le> 0x39 then Some (c - 0x30)
      else if 0x61 \<le> c \<and> c \<le> 0x66 then Some (c - 0x57)
      else if 0x41 \<le> c \<and> c \<le> 0x46 then Some (c - 0x37)
      else None)"

text \<open>The four hexadecimal digits of a \<open>\uXXXX\<close> escape.\<close>

fun decode_uXXXX :: "str \<Rightarrow> nat option" where
  "decode_uXXXX [a, b, c, d] =
     (case (hexval a, hexval b, hexval c, hexval d) of
        (Some w, Some x, Some y, Some z) \<Rightarrow> Some (((w * 16 + x) * 16 + y) * 16 + z)
      | _ \<Rightarrow> None)"
| "decode_uXXXX _ = None"

definition backslash :: "nat \<Rightarrow> nat option" where
  "backslash e =
     (if e = 0x22 then Some 0x22
      else if e = 0x5C then Some 0x5C
      else if e = 0x2F then Some 0x2F
      else if e = 0x62 then Some 0x08
      else if e = 0x66 then Some 0x0C
      else if e = 0x6E then Some 0x0A
      else if e = 0x72 then Some 0x0D
      else if e = 0x74 then Some 0x09
      else None)"

definition prepend :: "nat \<Rightarrow> (str \<times> str) option \<Rightarrow> (str \<times> str) option" where
  "prepend c r = (case r of None \<Rightarrow> None | Some (content, rest) \<Rightarrow> Some (c # content, rest))"

text \<open>
  \<open>scanstring\<close> reads a string literal from just after its opening quote and returns its
  content and the text after the closing quote. Control characters are refused (strict
  mode); a high surrogate escape directly followed by a low surrogate escape is one code
  point.
\<close>

fun scanstring :: "str \<Rightarrow> (str \<times> str) option" where
  "scanstring [] = None"
| "scanstring (c # cs) =
     (if c = 0x22 then Some ([], cs)
      else if c = 0x5C then
        (case cs of
           [] \<Rightarrow> None
         | e # cs' \<Rightarrow>
             if e = 0x75 then
               (case decode_uXXXX (take 4 cs') of
                  None \<Rightarrow> None
                | Some uni \<Rightarrow>
                    if 0xD800 \<le> uni \<and> uni \<le> 0xDBFF \<and> take 2 (drop 4 cs') = [0x5C, 0x75] then
                      (case decode_uXXXX (take 4 (drop 6 cs')) of
                         None \<Rightarrow> None
                       | Some uni2 \<Rightarrow>
                           if 0xDC00 \<le> uni2 \<and> uni2 \<le> 0xDFFF
                           then prepend (0x10000 + ((uni - 0xD800) * 1024 + (uni2 - 0xDC00)))
                                  (scanstring (drop 10 cs'))
                           else prepend uni (scanstring (drop 4 cs')))
                    else prepend uni (scanstring (drop 4 cs')))
             else
               (case backslash e of
                  None \<Rightarrow> None
                | Some ch \<Rightarrow> prepend ch (scanstring cs')))
      else if c < 0x20 then None
      else prepend c (scanstring cs))"

definition is_digit :: "nat \<Rightarrow> bool" where
  "is_digit c \<longleftrightarrow> 0x30 \<le> c \<and> c \<le> 0x39"

text \<open>
  A number: an optional minus sign, \<open>0\<close> or a digit string without leading zero, an
  optional fraction, an optional exponent. A fraction or exponent without digits is not
  part of the number.
\<close>

definition match_int :: "str \<Rightarrow> (str \<times> str) option" where
  "match_int s =
     (case s of
        [] \<Rightarrow> None
      | d # r \<Rightarrow>
          if 0x31 \<le> d \<and> d \<le> 0x39 then Some (d # takeWhile is_digit r, dropWhile is_digit r)
          else if d = 0x30 then Some ([d], r)
          else None)"

definition match_frac :: "str \<Rightarrow> str \<times> str" where
  "match_frac s =
     (case s of
        [] \<Rightarrow> ([], s)
      | p # r \<Rightarrow>
          if p = 0x2E \<and> takeWhile is_digit r \<noteq> []
          then (p # takeWhile is_digit r, dropWhile is_digit r)
          else ([], s))"

definition match_exp :: "str \<Rightarrow> str \<times> str" where
  "match_exp s =
     (case s of
        [] \<Rightarrow> ([], s)
      | e # r \<Rightarrow>
          if e = 0x65 \<or> e = 0x45 then
            (let sg = (case r of [] \<Rightarrow> [] | c # _ \<Rightarrow> if c = 0x2B \<or> c = 0x2D then [c] else []);
                 r' = drop (length sg) r
             in if takeWhile is_digit r' \<noteq> []
                then (e # sg @ takeWhile is_digit r', dropWhile is_digit r')
                else ([], s))
          else ([], s))"

definition match_number :: "str \<Rightarrow> (pyobj \<times> str) option" where
  "match_number s =
     (let sg = (case s of [] \<Rightarrow> [] | c # _ \<Rightarrow> if c = 0x2D then [c] else [])
      in case match_int (drop (length sg) s) of
           None \<Rightarrow> None
         | Some (ip, r1) \<Rightarrow>
             (let (fp, r2) = match_frac r1; (ep, r3) = match_exp r2
              in Some (PNumber (sg @ ip @ fp @ ep), r3)))"

text \<open>
  The scanner. Its first argument bounds the number of nested calls; \<open>json_loads\<close> starts
  it with more than the length of the text, and every call but the first follows a
  character that was consumed, so that the bound is never reached (lemma
  \<open>json_loads_any_fuel\<close> below).
\<close>

fun scan_once :: "nat \<Rightarrow> str \<Rightarrow> (pyobj \<times> str) option"
  and scan_items :: "nat \<Rightarrow> str \<Rightarrow> (pyobj list \<times> str) option"
  and scan_pairs :: "nat \<Rightarrow> str \<Rightarrow> ((str \<times> pyobj) list \<times> str) option"
where
  "scan_once 0 s = None"
| "scan_once (Suc n) s =
     (case s of
        [] \<Rightarrow> None
      | c # cs \<Rightarrow>
          if c = 0x22 then
            (case scanstring cs of None \<Rightarrow> None | Some (content, r) \<Rightarrow> Some (PStr content, r))
          else if c = 0x7B then
            (case expect 0x7D (skip_ws cs) of
               Some r \<Rightarrow> Some (PDict [], r)
             | None \<Rightarrow>
                 (case scan_pairs n (skip_ws cs) of
                    None \<Rightarrow> None
                  | Some (kvs, r) \<Rightarrow> Some (PDict kvs, r)))
          else if c = 0x5B then
            (case expect 0x5D (skip_ws cs) of
               Some r \<Rightarrow> Some (PList [], r)
             | None \<Rightarrow>
                 (case scan_items n (skip_ws cs) of
                    None \<Rightarrow> None
                  | Some (vs, r) \<Rightarrow> Some (PList vs, r)))
          else if c = 0x6E \<and> take 3 cs = lit ''ull'' then Some (PNone, drop 3 cs)
          else if c = 0x74 \<and> take 3 cs = lit ''rue'' then Some (PBool True, drop 3 cs)
          else if c = 0x66 \<and> take 4 cs = lit ''alse'' then Some (PBool False, drop 4 cs)
          else if c = 0x4E \<and> take 2 cs = lit ''aN'' then Some (PNumber (lit ''NaN''), drop 2 cs)
          else if c = 0x49 \<and> take 7 cs = lit ''nfinity''
            then Some (PNumber (lit ''Infinity''), drop 7 cs)
          else if c = 0x2D \<and> take 8 cs = lit ''Infinity''
            then Some (PNumber (lit ''-Infinity''), drop 8 cs)
          else match_number s)"
| "scan_items 0 s = None"
| "scan_items (Suc n) s =
     (case scan_once n s of
        None \<Rightarrow> None
      | Some (v, r) \<Rightarrow>
          (case skip_ws r of
             [] \<Rightarrow> None
           | c # r' \<Rightarrow>
               if c = 0x5D then Some ([v], r')
               else if c = 0x2C then
                 (case scan_items n (skip_ws r') of
                    None \<Rightarrow> None
                  | Some (vs, r'') \<Rightarrow> Some (v # vs, r''))
               else None))"
| "scan_pairs 0 s = None"
| "scan_pairs (Suc n) s =
     (case expect 0x22 s of
        None \<Rightarrow> None
      | Some r1 \<Rightarrow>
          (case scanstring r1 of
             None \<Rightarrow> None
           | Some (key, r2) \<Rightarrow>
               (case expect 0x3A (skip_ws r2) of
                  None \<Rightarrow> None
                | Some r3 \<Rightarrow>
                    (case scan_once n (skip_ws r3) of
                       None \<Rightarrow> None
                     | Some (v, r4) \<Rightarrow>
                         (case skip_ws r4 of
                            [] \<Rightarrow> None
                          | c # r5 \<Rightarrow>
                              if c = 0x7D then Some ([(key, v)], r5)
                              else if c = 0x2C then
                                (case scan_pairs n (skip_ws r5) of
                                   None \<Rightarrow> None
                                 | Some (kvs, r6) \<Rightarrow> Some ((key, v) # kvs, r6))
                              else None)))))"

text \<open>
  \<open>json.loads\<close> of a \<open>str\<close>: one value between optional whitespace and nothing after it;
  \<open>None\<close> stands for the \<open>JSONDecodeError\<close> it raises otherwise.
\<close>

definition json_loads :: "str \<Rightarrow> pyobj option" where
  "json_loads s =
     (case scan_once (Suc (length s)) (skip_ws s) of
        None \<Rightarrow> None
      | Some (v, r) \<Rightarrow> if skip_ws r = [] then Some v else None)"

text \<open>
  A text that makes the scanner call itself: it opens an object or an array that is not
  closed at once.
\<close>

definition nested :: "str \<Rightarrow> bool" where
  "nested s \<longleftrightarrow>
     (case s of [] \<Rightarrow> False
      | c # cs \<Rightarrow> c = 0x7B \<and> expect 0x7D (skip_ws cs) = None \<or>
                 c = 0x5B \<and> expect 0x5D (skip_ws cs) = None)"

subsection \<open>\<open>json.dumps\<close> of a string\<close>

definition hexdigit :: "nat \<Rightarrow> nat" where
  "hexdigit d = (if d < 10 then 0x30 + d else 0x57 + d)"

text \<open>The format \<open>\u{0:04x}\<close> of a number below \<open>0x10000\<close>.\<close>

definition u_escape :: "nat \<Rightarrow> str" where
  "u_escape n =
     [0x5C, 0x75, hexdigit (n div 4096), hexdigit (n div 256 mod 16),
      hexdigit (n div 16 mod 16), hexdigit (n mod 16)]"

text \<open>
  The replacement of one character under \<open>ensure_ascii\<close>: printable ASCII but the quote
  and the backslash stays, everything else is escaped, a code point from \<open>0x10000\<close> on
  as a surrogate pair.
\<close>

definition escape_char :: "nat \<Rightarrow> str" where
  "escape_char c =
     (if c = 0x5C then [0x5C, 0x5C]
      else if c = 0x22 then [0x5C, 0x22]
      else if c = 0x08 then [0x5C, 0x62]
      else if c = 0x0C then [0x5C, 0x66]
      else if c = 0x0A then [0x5C, 0x6E]
      else if c = 0x0D then [0x5C, 0x72]
      else if c = 0x09 then [0x5C, 0x74]
      else if 0x20 \<le> c \<and> c \<le> 0x7E then [c]
      else if c < 0x10000 then u_escape c
      else u_escape (0xD800 + (c - 0x10000) div 1024 mod 1024) @
           u_escape (0xDC00 + (c - 0x10000) mod 1024))"

definition encode_basestring_ascii :: "str \<Rightarrow> str" where
  "encode_basestring_ascii s = 0x22 # concat (map escape_char s) @ [0x22]"

section \<open>The message envelope\<close>

record Message =
  sender :: str
  message :: str

text \<open>
  Modelled from the spec: the class \<open>Message\<close> of \<open>message.py\<close>, which is not among the
  sources. The spec gives it two attributes, \<open>sender\<close> and \<open>message\<close>, both text, both
  required and non-null; the constructor takes the two values and refuses
  (\<open>ValidationError\<close>) a value that is not a string. Its \<open>json()\<close> is the JSON object with
  exactly the two keys \<open>sender\<close> and \<open>message\<close> in this order and the values verbatim, in
  the wire format of the spec, \<open>{"sender": "<string>", "message": "<string>"}\<close>, written
  as \<open>json.dumps\<close> writes a dictionary by default (ASCII text, every other character as
  an escape); \<open>dict()\<close> is the record itself.
\<close>

definition Message_init :: "pyobj \<Rightarrow> pyobj \<Rightarrow> error + Message" where
  "Message_init s m =
     (case s of
        PStr a \<Rightarrow>
          (case m of
             PStr b \<Rightarrow> Inr \<lparr>sender = a, message = b\<rparr>
           | _ \<Rightarrow> Inl ValidationError)
      | _ \<Rightarrow> Inl ValidationError)"

definition Message_json :: "Message \<Rightarrow> str" where
  "Message_json msg =
     lit ''{'' @ encode_basestring_ascii (lit ''sender'') @ lit '': '' @
       encode_basestring_ascii (sender msg) @ lit '', '' @
       encode_basestring_ascii (lit ''message'') @ lit '': '' @
       encode_basestring_ascii (message msg) @ lit ''}''"

section \<open>writer.py\<close>

definition format_message :: "str \<Rightarrow> str \<Rightarrow> error + str" where
  "format_message self_id text =
     (case Message_init (PStr self_id) (PStr text) of
        Inl e \<Rightarrow> Inl e
      | Inr msg \<Rightarrow> Inr (Message_json msg))"

text \<open>
  The stream is the list of the events published so far. The broker's \<open>write_event\<close>
  takes a \<open>str\<close> and appends its UTF-8 bytes.
\<close>

definition write_event :: "str \<Rightarrow> bytes list \<Rightarrow> error + bytes list" where
  "write_event event stream =
     (case encode_utf8 event of Inl e \<Rightarrow> Inl e | Inr b \<Rightarrow> Inr (stream @ [b]))"

definition writer_write :: "str \<Rightarrow> str \<Rightarrow> bytes list \<Rightarrow> error + bytes list" where
  "writer_write self_id text stream =
     (case format_message self_id text of
        Inl e \<Rightarrow> Inl e
      | Inr msg \<Rightarrow> write_event msg stream)"

section \<open>reader.py\<close>

text \<open>Subscription with a string key, \<open>obj['key']\<close>, and with the index \<open>0\<close>.\<close>

fun subscript :: "pyobj \<Rightarrow> str \<Rightarrow> error + pyobj" where
  "subscript (PDict kvs) k = (case map_of (rev kvs) k of None \<Rightarrow> Inl KeyError | Some v \<Rightarrow> Inr v)"
| "subscript _ k = Inl TypeError"

fun subscript0 :: "pyobj \<Rightarrow> error + pyobj" where
  "subscript0 (PList []) = Inl IndexError"
| "subscript0 (PList (v # _)) = Inr v"
| "subscript0 (PStr []) = Inl IndexError"
| "subscript0 (PStr (c # _)) = Inr (PStr [c])"
| "subscript0 (PDict kvs) = Inl KeyError"
| "subscript0 _ = Inl TypeError"

text \<open>
  \<open>_tell_joke\<close>. The provider is what \<open>requests.get\<close> does: it raises, or it returns a
  response whose text is given. The sum \<open>a + "\n" + b\<close> is a \<open>TypeError\<close> unless both
  are strings, and the left operand is added before \<open>b\<close> is looked up.
\<close>

definition tell_joke :: "error + str \<Rightarrow> error + str" where
  "tell_joke provider =
     (case provider of
        Inl e \<Rightarrow> Inl e
      | Inr text \<Rightarrow>
          (case json_loads text of
             None \<Rightarrow> Inl JSONDecodeError
           | Some jokes \<Rightarrow>
               (case subscript0 jokes of
                  Inl e \<Rightarrow> Inl e
                | Inr tt \<Rightarrow>
                    (case subscript tt (lit ''setup'') of
                       Inl e \<Rightarrow> Inl e
                     | Inr (PStr setup) \<Rightarrow>
                         (case subscript tt (lit ''punchline'') of
                            Inl e \<Rightarrow> Inl e
                          | Inr (PStr punchline) \<Rightarrow> Inr (setup @ [0x0A] @ punchline)
                          | Inr _ \<Rightarrow> Inl TypeError)
                     | Inr _ \<Rightarrow> Inl TypeError))))"

definition greet :: "str \<Rightarrow> str" where
  "greet who = who @ lit '' says hi!''"

text \<open>The comprehension \<open>[x.decode("utf-8") for x in buff]\<close>: each fragment on its own.\<close>

fun decode_all :: "bytes list \<Rightarrow> error + str list" where
  "decode_all [] = Inr []"
| "decode_all (x # xs) =
     (case decode_utf8 x of
        Inl e \<Rightarrow> Inl e
      | Inr d \<Rightarrow> (case decode_all xs of Inl e \<Rightarrow> Inl e | Inr ds \<Rightarrow> Inr (d # ds)))"

text \<open>
  The first half of \<open>_process_message\<close> (the assignments to \<open>decoded\<close>, \<open>stringify\<close>,
  \<open>jsonify\<close> and \<open>incoming\<close>): the parsed object and the incoming message.
\<close>

definition decode_batch :: "unicode_lower \<Rightarrow> bytes list \<Rightarrow> error + (pyobj \<times> Message)" where
  "decode_batch U buff =
     (case decode_all buff of
        Inl e \<Rightarrow> Inl e
      | Inr decoded \<Rightarrow>
          (let stringify = lower U (strip (concat decoded))
           in case json_loads stringify of
                None \<Rightarrow> Inl JSONDecodeError
              | Some jsonify \<Rightarrow>
                  (case subscript jsonify (lit ''sender'') of
                     Inl e \<Rightarrow> Inl e
                   | Inr s \<Rightarrow>
                       (case subscript jsonify (lit ''message'') of
                          Inl e \<Rightarrow> Inl e
                        | Inr m \<Rightarrow>
                            (case Message_init s m of
                               Inl e \<Rightarrow> Inl e
                             | Inr incoming \<Rightarrow> Inr (jsonify, incoming))))))"

text \<open>
  \<open>_process_message\<close>: \<open>Inr None\<close> is the plain \<open>return\<close>, \<open>Inr (Some resp)\<close> the returned
  \<open>resp.dict()\<close>, \<open>Inl e\<close> an exception that leaves the function.
\<close>

definition process_message ::
  "unicode_lower \<Rightarrow> str \<Rightarrow> error + str \<Rightarrow> bytes list \<Rightarrow> error + Message option" where
  "process_message U self_id provider buff =
     (case decode_batch U buff of
        Inl e \<Rightarrow> Inl e
      | Inr (jsonify, incoming) \<Rightarrow>
          if sender incoming = self_id then Inr None
          else
            (case subscript jsonify (lit ''message'') of
               Inl e \<Rightarrow> Inl e
             | Inr m \<Rightarrow>
                 (case (if m = PStr (lit ''greet'') then Inr (PStr (greet (sender incoming)))
                        else if m = PStr (lit ''joke'') then
                          (case tell_joke provider of Inl e \<Rightarrow> Inl e | Inr j \<Rightarrow> Inr (PStr j))
                        else Inr m) of
                    Inl e \<Rightarrow> Inl e
                  | Inr msg \<Rightarrow>
                      (case Message_init (PStr (sender incoming)) msg of
                         Inl e \<Rightarrow> Inl e
                       | Inr resp \<Rightarrow> Inr (Some resp)))))"

text \<open>
  The names bound at module level in \<open>reader.py\<close>: its three imports and its class.
  Looking up any other global name raises \<open>NameError\<close>.
\<close>

definition reader_globals :: "string list" where
  "reader_globals = [''json'', ''Message'', ''requests'', ''MyReader'']"

definition global_name :: "string list \<Rightarrow> string \<Rightarrow> error + unit" where
  "global_name names n = (if n \<in> set names then Inr () else Inl NameError)"

text \<open>
  \<open>MyReader.read\<close> for one answer of the broker: an exception of one of its calls
  (\<open>get_segment_slice_async\<close>, the iteration over the slice, \<open>release_segment\<close>), or
  the payloads of the events of the slice. The body of the \<open>try\<close> comes first; the handler
  evaluates \<open>logging.error(str(e))\<close>, which starts by looking up the global name
  \<open>logging\<close>, and returns nothing after it.
\<close>

definition read_try :: "unicode_lower \<Rightarrow> str \<Rightarrow> error + str \<Rightarrow> error + bytes list \<Rightarrow> error + Message option" where
  "read_try U self_id provider answer =
     (case answer of
        Inl e \<Rightarrow> Inl e
      | Inr buff \<Rightarrow> if length buff > 0 then process_message U self_id provider buff else Inr None)"

definition reader_read :: "unicode_lower \<Rightarrow> str \<Rightarrow> error + str \<Rightarrow> error + bytes list \<Rightarrow> error + Message option" where
  "reader_read U self_id provider answer =
     (case read_try U self_id provider answer of
        Inr resp \<Rightarrow> Inr resp
      | Inl e \<Rightarrow>
          (case global_name reader_globals ''logging'' of
             Inl ne \<Rightarrow> Inl ne
           | Inr _ \<Rightarrow> Inr None))"

text \<open>\<open>MyReader.close\<close>: one more call of the broker's \<open>reader_offline\<close>.\<close>

definition reader_close :: "nat \<Rightarrow> nat" where
  "reader_close calls = calls + 1"

section \<open>chatter.py\<close>

text \<open>
  What one turn of the read loop meets: the value of \<open>self.running\<close> at the loop test
  and, should the turn read, the broker's answer and the joke provider's.
\<close>

record turn =
  running :: bool
  answer :: "error + bytes list"
  provider :: "error + str"

text \<open>
  How the read loop stands: the text printed, the number of calls of \<open>reader.read\<close>, the
  number of calls of \<open>reader_offline\<close>, and how it ended: \<open>Returned\<close> after the loop
  and \<open>close\<close>, \<open>Raised e\<close> when an exception of \<open>reader.read\<close> or of a \<open>print\<close>
  left it, \<open>Waiting\<close> when the broker has no further answer.
\<close>

datatype ending = Returned | Raised error | Waiting

record reading =
  console :: str
  reads :: nat
  offline :: nat
  ending :: ending

text \<open>
  \<open>print\<close> writes a text to the console, which is taken to encode in UTF-8: for a text
  with a code point that cannot be encoded it raises \<open>UnicodeEncodeError\<close> and writes
  nothing of it. \<open>prints\<close> is a sequence of calls: the console after them, and the exception
  that ended them, if any.
\<close>

fun prints :: "str list \<Rightarrow> str \<Rightarrow> str \<times> error option" where
  "prints [] out = (out, None)"
| "prints (t # ts) out =
     (case encode_utf8 t of
        Inl e \<Rightarrow> (out, Some e)
      | Inr _ \<Rightarrow> prints ts (out @ t))"

text \<open>
  The three texts printed for a message: the backspaces, the line with its own newline and
  the one \<open>print\<close> adds, and the prompt.
\<close>

definition show_message :: "str \<Rightarrow> Message \<Rightarrow> str list" where
  "show_message self_id msg =
     [replicate (length self_id + 2) 0x08,
      sender msg @ lit '': '' @ message msg @ [0x0A] @ [0x0A],
      self_id @ lit '': '']"

fun chatter_read :: "unicode_lower \<Rightarrow> str \<Rightarrow> turn list \<Rightarrow> reading \<Rightarrow> reading" where
  "chatter_read U self_id [] st = st\<lparr>ending := Waiting\<rparr>"
| "chatter_read U self_id (t # ts) st =
     (if running t then
        (case reader_read U self_id (provider t) (answer t) of
           Inl e \<Rightarrow> st\<lparr>reads := reads st + 1, ending := Raised e\<rparr>
         | Inr None \<Rightarrow> chatter_read U self_id ts (st\<lparr>reads := reads st + 1\<rparr>)
         | Inr (Some msg) \<Rightarrow>
             (case prints (show_message self_id msg) (console st) of
                (out, Some e) \<Rightarrow> st\<lparr>reads := reads st + 1, console := out, ending := Raised e\<rparr>
              | (out, None) \<Rightarrow>
                  chatter_read U self_id ts (st\<lparr>reads := reads st + 1, console := out\<rparr>)))
      else st\<lparr>offline := reader_close (offline st), ending := Returned\<rparr>)"

definition start :: reading where
  "start = \<lparr>console = [], reads = 0, offline = 0, ending = Waiting\<rparr>"

text \<open>
  The write loop over the lines \<open>input\<close> returns, each with the value of \<open>self.running\<close>
  at the loop test before it. An exception of the writer leaves the loop; when the lines
  are used up the loop waits in \<open>input\<close> and the stream stands as it is.
\<close>

fun chatter_write :: "unicode_lower \<Rightarrow> str \<Rightarrow> (bool \<times> str) list \<Rightarrow> bytes list \<Rightarrow> error + bytes list" where
  "chatter_write U self_id [] stream = Inr stream"
| "chatter_write U self_id ((run, line) # rest) stream =
     (if run then
        (let text = lower U (strip line)
         in if text \<noteq> [] then
              (case writer_write self_id text stream of
                 Inl e \<Rightarrow> Inl e
               | Inr stream' \<Rightarrow> chatter_write U self_id rest stream')
            else chatter_write U self_id rest stream)
      else Inr stream)"

section \<open>Lemmas about the text functions and the \<open>json\<close> module\<close>

subsection \<open>Hexadecimal escapes\<close>

lemma hexval_hexdigit: "d < 16 \<Longrightarrow> hexval (hexdigit d) = Some d"
  by (simp add: hexval_def hexdigit_def)

lemma ascii_lower_hexdigit: "d < 16 \<Longrightarrow> ascii_lower (hexdigit d) = hexdigit d"
  by (simp add: ascii_lower_def hexdigit_def)

lemma hexdigit_ascii: "d < 16 \<Longrightarrow> hexdigit d < 0x80"
  by (simp add: hexdigit_def)

lemma div_bounds:
  fixes n :: nat
  assumes "n < 0x10000"
  shows "n div 4096 < 16" "n div 256 mod 16 < 16" "n div 16 mod 16 < 16" "n mod 16 < 16"
  using assms by (simp_all add: less_mult_imp_div_less)

lemma hex4_value:
  fixes n :: nat
  shows "((n div 4096 * 16 + n div 256 mod 16) * 16 + n div 16 mod 16) * 16 + n mod 16 = n"
proof -
  have a: "n div 4096 = n div 256 div 16" "n div 256 = n div 16 div 16"
    by (simp_all add: div_mult2_eq[symmetric])
  have "n div 4096 * 16 + n div 256 mod 16 = n div 256"
    unfolding a(1) by (rule div_mult_mod_eq)
  moreover have "n div 256 * 16 + n div 16 mod 16 = n div 16"
    unfolding a(2) by (rule div_mult_mod_eq)
  moreover have "n div 16 * 16 + n mod 16 = n"
    by (rule div_mult_mod_eq)
  ultimately show ?thesis by simp
qed

lemma decode_hexdigits:
  assumes "a < 16" "b < 16" "c < 16" "d < 16"
  shows "decode_uXXXX [hexdigit a, hexdigit b, hexdigit c, hexdigit d] =
           Some (((a * 16 + b) * 16 + c) * 16 + d)"
  by (simp only: decode_uXXXX.simps hexval_hexdigit[OF assms(1)] hexval_hexdigit[OF assms(2)]
        hexval_hexdigit[OF assms(3)] hexval_hexdigit[OF assms(4)] prod.case option.case)

lemma decode_u_escape:
  assumes "n < 0x10000"
  shows "decode_uXXXX (drop 2 (u_escape n)) = Some n"
proof -
  have "drop 2 (u_escape n) =
          [hexdigit (n div 4096), hexdigit (n div 256 mod 16), hexdigit (n div 16 mod 16),
           hexdigit (n mod 16)]"
    by (simp add: u_escape_def)
  then show ?thesis
    by (simp only: decode_hexdigits[OF div_bounds[OF assms]] hex4_value)
qed

lemma lower_u_escape:
  assumes "n < 0x10000"
  shows "map ascii_lower (u_escape n) = u_escape n"
proof -
  have "ascii_lower 0x5C = 0x5C" "ascii_lower 0x75 = 0x75"
    by (simp_all add: ascii_lower_def)
  then show ?thesis
    by (simp add: u_escape_def ascii_lower_hexdigit div_bounds[OF assms])
qed

lemma u_escape_ascii:
  assumes "n < 0x10000"
  shows "list_all (\<lambda>c. c < 0x80) (u_escape n)"
  by (simp add: u_escape_def hexdigit_ascii div_bounds[OF assms])

lemma u_escape_shape:
  "u_escape n = 0x5C # 0x75 # drop 2 (u_escape n)" "length (drop 2 (u_escape n)) = 4"
  by (simp_all add: u_escape_def)

lemma scan_u_bmp:
  assumes "length h = 4" and "decode_uXXXX h = Some n" and "\<not> (0xD800 \<le> n \<and> n \<le> 0xDBFF)"
  shows "scanstring (0x5C # 0x75 # h @ rest) = prepend n (scanstring rest)"
proof (cases "0xD800 \<le> n")
  case True
  then have "\<not> n \<le> 0xDBFF" using assms(3) by simp
  then show ?thesis using assms(1,2) by simp
next
  case False
  then show ?thesis using assms(1,2) by simp
qed

lemma scan_u_pair:
  assumes "length h = 4" and "decode_uXXXX h = Some hi" and "length l = 4" and "decode_uXXXX l = Some lo"
    and "0xD800 \<le> hi" "hi \<le> 0xDBFF" "0xDC00 \<le> lo" "lo \<le> 0xDFFF"
  shows "scanstring (0x5C # 0x75 # h @ 0x5C # 0x75 # l @ rest) =
           prepend (0x10000 + ((hi - 0xD800) * 1024 + (lo - 0xDC00))) (scanstring rest)"
  using assms by simp

lemma scan_u_escape_bmp:
  assumes "n < 0x10000" and "\<not> (0xD800 \<le> n \<and> n \<le> 0xDBFF)"
  shows "scanstring (u_escape n @ rest) = prepend n (scanstring rest)"
proof -
  have "scanstring (0x5C # 0x75 # drop 2 (u_escape n) @ rest) = prepend n (scanstring rest)"
    by (rule scan_u_bmp[OF u_escape_shape(2) decode_u_escape[OF assms(1)] assms(2)])
  then show ?thesis
    by (simp add: u_escape_def)
qed

lemma scan_u_escape_pair:
  assumes "0xD800 \<le> hi" "hi \<le> 0xDBFF" "0xDC00 \<le> lo" "lo \<le> 0xDFFF"
  shows "scanstring (u_escape hi @ u_escape lo @ rest) =
           prepend (0x10000 + ((hi - 0xD800) * 1024 + (lo - 0xDC00))) (scanstring rest)"
proof -
  have b: "hi < 0x10000" "lo < 0x10000" using assms by simp_all
  have "scanstring (0x5C # 0x75 # drop 2 (u_escape hi) @ 0x5C # 0x75 # drop 2 (u_escape lo) @ rest) =
           prepend (0x10000 + ((hi - 0xD800) * 1024 + (lo - 0xDC00))) (scanstring rest)"
    by (rule scan_u_pair[OF u_escape_shape(2) decode_u_escape[OF b(1)]
               u_escape_shape(2) decode_u_escape[OF b(2)] assms])
  then show ?thesis
    by (simp add: u_escape_def)
qed

subsection \<open>Scanning an escaped string\<close>

lemma scan_plain:
  assumes "0x20 \<le> c" "c \<noteq> 0x22" "c \<noteq> 0x5C"
  shows "scanstring (c # rest) = prepend c (scanstring rest)"
  using assms by simp

lemma scan_backslash:
  assumes "backslash e = Some ch" "e \<noteq> 0x75"
  shows "scanstring (0x5C # e # rest) = prepend ch (scanstring rest)"
  using assms by simp

lemma astral_value:
  fixes c :: nat
  assumes "0x10000 \<le> c" "c \<le> 0x10FFFF"
  shows "(c - 0x10000) div 1024 mod 1024 = (c - 0x10000) div 1024"
    and "0x10000 + ((c - 0x10000) div 1024 * 1024 + (c - 0x10000) mod 1024) = c"
proof -
  have "c - 0x10000 < 1024 * 1024" using assms by simp
  then have "(c - 0x10000) div 1024 < 1024"
    by (simp add: less_mult_imp_div_less)
  then show "(c - 0x10000) div 1024 mod 1024 = (c - 0x10000) div 1024" by simp
  have "(c - 0x10000) div 1024 * 1024 + (c - 0x10000) mod 1024 = c - 0x10000"
    by (rule div_mult_mod_eq)
  then show "0x10000 + ((c - 0x10000) div 1024 * 1024 + (c - 0x10000) mod 1024) = c"
    using assms(1) by simp
qed

lemma scan_escape_char:
  assumes "scalar c"
  shows "scanstring (map ascii_lower (escape_char c) @ rest) =
           prepend (ascii_lower c) (scanstring rest)"
proof -
  consider (special) "c \<in> {0x5C, 0x22, 0x08, 0x0C, 0x0A, 0x0D, 0x09}"
    | (plain) "c \<notin> {0x5C, 0x22, 0x08, 0x0C, 0x0A, 0x0D, 0x09}" "0x20 \<le> c" "c \<le> 0x7E"
    | (bmp) "c \<notin> {0x5C, 0x22, 0x08, 0x0C, 0x0A, 0x0D, 0x09}" "\<not> (0x20 \<le> c \<and> c \<le> 0x7E)" "c < 0x10000"
    | (astral) "0x10000 \<le> c"
    by fastforce
  then show ?thesis
  proof cases
    case special
    then show ?thesis
      by (auto simp: escape_char_def ascii_lower_def backslash_def)
  next
    case plain
    then have e: "escape_char c = [c]"
      by (simp add: escape_char_def)
    have p: "0x20 \<le> ascii_lower c" "ascii_lower c \<noteq> 0x22" "ascii_lower c \<noteq> 0x5C"
      using plain by (auto simp: ascii_lower_def)
    show ?thesis
      unfolding e using scan_plain[OF p, of rest] by simp
  next
    case bmp
    then have e: "escape_char c = u_escape c"
      by (auto simp: escape_char_def)
    have l: "ascii_lower c = c"
      using bmp(2) by (auto simp: ascii_lower_def)
    have s: "\<not> (0xD800 \<le> c \<and> c \<le> 0xDBFF)"
      using assms by (auto simp: scalar_def is_surrogate_def)
    show ?thesis
      unfolding e l lower_u_escape[OF bmp(3)] by (rule scan_u_escape_bmp[OF bmp(3) s])
  next
    case astral
    have le: "c \<le> 0x10FFFF" using assms by (simp add: scalar_def)
    define hi where "hi = 0xD800 + (c - 0x10000) div 1024"
    define lo where "lo = 0xDC00 + (c - 0x10000) mod 1024"
    have "(c - 0x10000) div 1024 < 1024"
      using le by (simp add: less_mult_imp_div_less)
    then have hi: "0xD800 \<le> hi" "hi \<le> 0xDBFF" by (simp_all add: hi_def)
    have "(c - 0x10000) mod 1024 < 1024" by simp
    then have lo: "0xDC00 \<le> lo" "lo \<le> 0xDFFF" unfolding lo_def by linarith+
    have e: "escape_char c = u_escape hi @ u_escape lo"
      using astral by (simp add: escape_char_def hi_def lo_def astral_value(1)[OF astral le])
    have l: "ascii_lower c = c"
      using astral by (simp add: ascii_lower_def)
    have b: "hi < 0x10000" "lo < 0x10000" using hi lo by simp_all
    have v: "0x10000 + ((hi - 0xD800) * 1024 + (lo - 0xDC00)) = c"
      using astral_value(2)[OF astral le] by (simp add: hi_def lo_def)
    show ?thesis
      unfolding e l map_append lower_u_escape[OF b(1)] lower_u_escape[OF b(2)] append_assoc
      using scan_u_escape_pair[OF hi lo, of rest] unfolding v .
  qed
qed

lemma scan_escaped:
  assumes "list_all scalar s"
  shows "scanstring (map ascii_lower (concat (map escape_char s)) @ 0x22 # rest) =
           Some (map ascii_lower s, rest)"
  using assms
proof (induction s)
  case Nil
  show ?case by simp
next
  case (Cons c s)
  then have c: "scalar c" and s: "list_all scalar s" by simp_all
  have "scanstring (map ascii_lower (concat (map escape_char (c # s))) @ 0x22 # rest) =
          scanstring (map ascii_lower (escape_char c) @
            (map ascii_lower (concat (map escape_char s)) @ 0x22 # rest))"
    by simp
  also have "\<dots> = prepend (ascii_lower c) (Some (map ascii_lower s, rest))"
    unfolding scan_escape_char[OF c] Cons.IH[OF s] ..
  finally show ?case by (simp add: prepend_def)
qed

subsection \<open>Scanning an envelope\<close>

lemma scan_envelope_fuel:
  assumes es: "\<And>rest. scanstring (es @ 0x22 # rest) = Some (s', rest)"
    and em: "\<And>rest. scanstring (em @ 0x22 # rest) = Some (m', rest)"
  shows "scan_once (Suc (Suc (Suc (Suc k))))
           (0x7B # 0x22 # lit ''sender'' @ 0x22 # 0x3A # 0x20 # 0x22 # es @
            0x22 # 0x2C # 0x20 # 0x22 # lit ''message'' @ 0x22 # 0x3A # 0x20 # 0x22 # em @
            [0x22, 0x7D]) =
         Some (PDict [(lit ''sender'', PStr s'), (lit ''message'', PStr m')], [])"
  by (simp add: lit_def skip_ws_def expect_def prepend_def es em)

lemma json_loads_envelope:
  assumes es: "\<And>rest. scanstring (es @ 0x22 # rest) = Some (s', rest)"
    and em: "\<And>rest. scanstring (em @ 0x22 # rest) = Some (m', rest)"
  shows "json_loads
           (0x7B # 0x22 # lit ''sender'' @ 0x22 # 0x3A # 0x20 # 0x22 # es @
            0x22 # 0x2C # 0x20 # 0x22 # lit ''message'' @ 0x22 # 0x3A # 0x20 # 0x22 # em @
            [0x22, 0x7D]) =
         Some (PDict [(lit ''sender'', PStr s'), (lit ''message'', PStr m')])"
proof -
  let ?t = "0x7B # 0x22 # lit ''sender'' @ 0x22 # 0x3A # 0x20 # 0x22 # es @
            0x22 # 0x2C # 0x20 # 0x22 # lit ''message'' @ 0x22 # 0x3A # 0x20 # 0x22 # em @
            [0x22, 0x7D]"
  obtain k where k: "length ?t = Suc (Suc (Suc k))"
    by simp
  have w: "skip_ws ?t = ?t"
    by (simp add: skip_ws_def)
  show ?thesis
    unfolding json_loads_def w k scan_envelope_fuel[OF es em]
    by (simp add: skip_ws_def)
qed

subsection \<open>The serialised message is ASCII text between braces\<close>

lemma lower_ascii: "isascii s \<Longrightarrow> lower U s = map ascii_lower s"
  by (simp add: lower_def)

lemma escape_char_ascii: "list_all (\<lambda>c. c < 0x80) (escape_char c)"
proof -
  have "(c - 0x10000) div 1024 mod 1024 < 1024" "(c - 0x10000) mod 1024 < 1024"
    by simp_all
  then have b: "0xD800 + (c - 0x10000) div 1024 mod 1024 < 0x10000"
    "0xDC00 + (c - 0x10000) mod 1024 < 0x10000"
    by linarith+
  show ?thesis
    using u_escape_ascii[OF b(1)] u_escape_ascii[OF b(2)] u_escape_ascii[of c]
    by (auto simp: escape_char_def)
qed

lemma escaped_ascii: "list_all (\<lambda>c. c < 0x80) (concat (map escape_char s))"
  by (induction s) (simp_all add: escape_char_ascii)

lemma Message_json_shape:
  "Message_json msg =
     0x7B # 0x22 # lit ''sender'' @ 0x22 # 0x3A # 0x20 # 0x22 # concat (map escape_char (sender msg)) @
     0x22 # 0x2C # 0x20 # 0x22 # lit ''message'' @ 0x22 # 0x3A # 0x20 # 0x22 #
     concat (map escape_char (message msg)) @ [0x22, 0x7D]"
  by (simp add: Message_json_def encode_basestring_ascii_def lit_def escape_char_def)

lemma Message_json_ascii: "isascii (Message_json msg)"
  unfolding Message_json_shape isascii_def
  using escaped_ascii[of "sender msg"] escaped_ascii[of "message msg"]
  by (simp add: lit_def)

lemma Message_json_lower:
  "map ascii_lower (Message_json msg) =
     0x7B # 0x22 # lit ''sender'' @ 0x22 # 0x3A # 0x20 # 0x22 #
     map ascii_lower (concat (map escape_char (sender msg))) @
     0x22 # 0x2C # 0x20 # 0x22 # lit ''message'' @ 0x22 # 0x3A # 0x20 # 0x22 #
     map ascii_lower (concat (map escape_char (message msg))) @ [0x22, 0x7D]"
  unfolding Message_json_shape
  by (simp add: lit_def ascii_lower_def del: map_concat)

lemma strip_ends:
  assumes "s \<noteq> []" "\<not> isspace (hd s)" "\<not> isspace (last s)"
  shows "strip s = s"
proof -
  have "dropWhile isspace s = s"
    using assms(1,2) by (cases s) simp_all
  moreover have "dropWhile isspace (rev s) = rev s"
    using assms(1,3) by (cases "rev s") (simp_all add: hd_rev[symmetric])
  ultimately show ?thesis
    by (simp add: strip_def)
qed

lemma Message_json_strip: "strip (Message_json msg) = Message_json msg"
proof -
  have "Message_json msg \<noteq> []" "hd (Message_json msg) = 0x7B" "last (Message_json msg) = 0x7D"
    unfolding Message_json_shape by simp_all
  then show ?thesis
    by (intro strip_ends) (simp_all add: isspace_def)
qed

lemma utf8_ascii: "list_all (\<lambda>c. c < 0x80) s \<Longrightarrow> utf8 s = Some s"
  by (induction s) simp_all

lemma encode_utf8_ascii: "isascii s \<Longrightarrow> encode_utf8 s = Inr (map char_of s)"
  by (induction s) (simp_all add: isascii_def encode_cp_def)

lemma of_char_char_of_ascii:
  fixes s :: "nat list"
  assumes "list_all (\<lambda>c. c < 0x80) s"
  shows "map (of_char \<circ> (char_of :: nat \<Rightarrow> char)) s = s"
  using assms by (induction s) simp_all

lemma decode_utf8_ascii: "isascii s \<Longrightarrow> decode_utf8 (map char_of s) = Inr s"
  by (simp add: decode_utf8_def isascii_def of_char_char_of_ascii utf8_ascii)

lemma json_loads_Message_json_lower:
  assumes "list_all scalar (sender msg)" "list_all scalar (message msg)"
  shows "json_loads (map ascii_lower (Message_json msg)) =
           Some (PDict [(lit ''sender'', PStr (map ascii_lower (sender msg))),
                        (lit ''message'', PStr (map ascii_lower (message msg)))])"
  unfolding Message_json_lower
  by (rule json_loads_envelope) (rule scan_escaped[OF assms(1)] scan_escaped[OF assms(2)])+

lemma decode_batch_Message_json:
  assumes "list_all scalar (sender msg)" "list_all scalar (message msg)"
  shows "decode_batch U [map char_of (Message_json msg)] =
           Inr (PDict [(lit ''sender'', PStr (map ascii_lower (sender msg))),
                       (lit ''message'', PStr (map ascii_lower (message msg)))],
                \<lparr>sender = map ascii_lower (sender msg), message = map ascii_lower (message msg)\<rparr>)"
proof -
  have a: "decode_utf8 (map char_of (Message_json msg)) = Inr (Message_json msg)"
    by (rule decode_utf8_ascii[OF Message_json_ascii])
  have b: "lower U (strip (Message_json msg)) = map ascii_lower (Message_json msg)"
    by (simp add: Message_json_strip lower_ascii[OF Message_json_ascii])
  have c: "lit ''sender'' \<noteq> lit ''message''"
    by (simp add: lit_def)
  show ?thesis
    using c
    by (simp add: decode_batch_def a b json_loads_Message_json_lower[OF assms] Message_init_def)
qed

lemma writer_write_wire:
  "writer_write self_id text stream =
     Inr (stream @ [map char_of (Message_json \<lparr>sender = self_id, message = text\<rparr>)])"
  by (simp add: writer_write_def format_message_def Message_init_def write_event_def
        encode_utf8_ascii[OF Message_json_ascii])

subsection \<open>Decoding fragment by fragment\<close>

lemma utf8_append:
  "utf8 a = Some x \<Longrightarrow> utf8 b = Some y \<Longrightarrow> utf8 (a @ b) = Some (x @ y)"
proof (induction a arbitrary: x rule: utf8.induct)
  case 1
  then show ?case by simp
next
  case (2 c cs)
  show ?case
  proof (cases "c < 0x80")
    case True
    then show ?thesis using 2 by auto
  next
    case n1: False
    show ?thesis
    proof (cases "0xC0 \<le> c \<and> c < 0xE0")
      case True
      then show ?thesis using n1 2(2)[OF n1 True] 2(5,6)
        by (auto simp: Let_def split: list.splits if_splits)
    next
      case n2: False
      show ?thesis
      proof (cases "0xE0 \<le> c \<and> c < 0xF0")
        case True
        then show ?thesis using n1 n2 2(3)[OF n1 n2 True] 2(5,6)
          by (auto simp: Let_def split: list.splits if_splits)
      next
        case n3: False
        show ?thesis
        proof (cases "0xF0 \<le> c \<and> c < 0xF8")
          case True
          then show ?thesis using n1 n2 n3 2(4)[OF n1 n2 n3 True] 2(5,6)
            by (auto simp: Let_def split: list.splits if_splits)
        next
          case False
          then show ?thesis using n1 n2 n3 2(5) by (auto split: if_splits)
        qed
      qed
    qed
  qed
qed

lemma decode_all_concat:
  "decode_all buff = Inr decoded \<Longrightarrow>
     utf8 (concat (map (map of_char) buff)) = Some (concat decoded)"
proof (induction buff arbitrary: decoded)
  case Nil
  then show ?case by simp
next
  case (Cons x xs)
  then obtain d ds where d: "utf8 (map of_char x) = Some d" "decode_all xs = Inr ds" "decoded = d # ds"
    by (auto simp: decode_utf8_def split: option.splits sum.splits)
  show ?case
    using utf8_append[OF d(1) Cons.IH[OF d(2)]] d(3) by simp
qed

subsection \<open>The scanner consumes what it reads\<close>

lemma length_skip_ws: "length (skip_ws s) \<le> length s"
  by (simp add: skip_ws_def length_dropWhile_le)

lemma expect_Some: "expect c s = Some r \<longleftrightarrow> s = c # r"
  by (auto simp: expect_def split: list.splits)

lemma prepend_Some:
  "prepend c x = Some (content, rest) \<longleftrightarrow> (\<exists>t. x = Some (t, rest) \<and> content = c # t)"
  by (auto simp: prepend_def split: option.splits)

lemma scanstring_step:
  assumes "scanstring (c # cs) = Some (content, r)"
  shows "r = cs \<or> (\<exists>t. scanstring cs = Some (t, r)) \<or> (\<exists>t. scanstring (drop 1 cs) = Some (t, r)) \<or>
         (\<exists>t. scanstring (drop 5 cs) = Some (t, r)) \<or> (\<exists>t. scanstring (drop 11 cs) = Some (t, r))"
proof (cases "c = 0x22")
  case True
  then show ?thesis using assms by simp
next
  case nq: False
  show ?thesis
  proof (cases "c = 0x5C")
    case False
    then have "\<exists>t. scanstring cs = Some (t, r)"
      using nq assms by (auto simp: prepend_Some split: if_splits)
    then show ?thesis by blast
  next
    case bs: True
    then obtain e cs' where cs: "cs = e # cs'"
      using nq assms by (cases cs) auto
    show ?thesis
    proof (cases "e = 0x75")
      case False
      then have "\<exists>t. scanstring cs' = Some (t, r)"
        using nq bs cs assms by (auto simp: prepend_Some split: option.splits)
      then show ?thesis using cs by simp
    next
      case u: True
      have "(\<exists>t. scanstring (drop 4 cs') = Some (t, r)) \<or> (\<exists>t. scanstring (drop 10 cs') = Some (t, r))"
        using nq bs cs u assms
        by (simp add: prepend_Some split: option.splits if_splits) blast+
      then show ?thesis using cs by auto
    qed
  qed
qed

lemma scanstring_consumes:
  "scanstring cs = Some (content, r) \<Longrightarrow> length r < length cs"
proof (induction cs arbitrary: content rule: length_induct)
  case (1 xs)
  then obtain c cs where xs: "xs = c # cs"
    by (cases xs) auto
  have ih: "length r < length (drop k cs)" if "scanstring (drop k cs) = Some (t, r)" for k t
    using 1(1) that xs by (metis length_drop diff_le_self le_imp_less_Suc length_Cons)
  then have "length r \<le> length cs" if "scanstring (drop k cs) = Some (t, r)" for k t
    using that by (metis length_drop diff_le_self less_imp_le_nat order_trans)
  then show ?case
    using scanstring_step[OF 1(2)[unfolded xs]] xs
    by (metis drop0 le_imp_less_Suc length_Cons order_refl)
qed

lemma match_int_consumes: "match_int s = Some (ip, r) \<Longrightarrow> length r < length s"
  by (auto simp: match_int_def length_dropWhile_le le_imp_less_Suc split: list.splits if_splits)

lemma match_frac_length: "length (snd (match_frac s)) \<le> length s"
  by (auto simp: match_frac_def length_dropWhile_le le_SucI split: list.splits)

lemma match_exp_length: "length (snd (match_exp s)) \<le> length s"
proof (cases s)
  case Nil
  then show ?thesis by (simp add: match_exp_def)
next
  case (Cons e r)
  have "length (dropWhile is_digit (drop k r)) \<le> length r" for k
    by (rule order_trans[OF length_dropWhile_le]) simp
  then show ?thesis
    using Cons by (auto simp: match_exp_def Let_def le_SucI)
qed

lemma match_number_consumes:
  assumes "match_number s = Some (v, r)"
  shows "length r < length s"
proof -
  obtain k ip r1 where a: "match_int (drop k s) = Some (ip, r1)"
    and r: "r = snd (match_exp (snd (match_frac r1)))"
    using assms
    by (fastforce simp: match_number_def Let_def split: option.splits prod.splits)
  have "length r \<le> length r1"
    unfolding r using match_exp_length match_frac_length order_trans by blast
  moreover have "length r1 < length s"
    using match_int_consumes[OF a] by simp
  ultimately show ?thesis by simp
qed

subsection \<open>The bound on nested calls is no restriction\<close>

lemma scan_items_Suc:
  "scan_items (Suc n) s = Some (vs, r) \<longleftrightarrow>
     (\<exists>v r1 c r2. scan_once n s = Some (v, r1) \<and> skip_ws r1 = c # r2 \<and>
        (c = 0x5D \<and> vs = [v] \<and> r = r2 \<or>
         c = 0x2C \<and> (\<exists>vs'. scan_items n (skip_ws r2) = Some (vs', r) \<and> vs = v # vs')))"
  by (auto split: option.splits list.splits if_splits)

lemma scan_pairs_Suc:
  "scan_pairs (Suc n) s = Some (kvs, r) \<longleftrightarrow>
     (\<exists>r1 key r2 r3 v r4 c r5.
        s = 0x22 # r1 \<and> scanstring r1 = Some (key, r2) \<and> skip_ws r2 = 0x3A # r3 \<and>
        scan_once n (skip_ws r3) = Some (v, r4) \<and> skip_ws r4 = c # r5 \<and>
        (c = 0x7D \<and> kvs = [(key, v)] \<and> r = r5 \<or>
         c = 0x2C \<and> (\<exists>kvs'. scan_pairs n (skip_ws r5) = Some (kvs', r) \<and> kvs = (key, v) # kvs')))"
  by (auto simp: expect_Some expect_def split: option.splits list.splits if_splits)

lemma scan_once_flat:
  assumes "\<not> nested s"
  shows "scan_once (Suc n) s = scan_once (Suc 0) s"
proof (cases s)
  case Nil
  then show ?thesis by simp
next
  case (Cons c cs)
  consider (obj) "c = 0x7B" | (arr) "c = 0x5B" | (other) "c \<noteq> 0x7B" "c \<noteq> 0x5B"
    by blast
  then show ?thesis
  proof cases
    case obj
    then obtain r where "expect 0x7D (skip_ws cs) = Some r"
      using assms Cons by (auto simp: nested_def)
    then show ?thesis using obj Cons by simp
  next
    case arr
    then obtain r where "expect 0x5D (skip_ws cs) = Some r"
      using assms Cons by (auto simp: nested_def)
    then show ?thesis using arr Cons by simp
  next
    case other
    then show ?thesis using Cons by simp
  qed
qed

lemma scan_once_nested:
  assumes "nested s"
  shows "scan_once (Suc n) s = Some (v, r) \<longleftrightarrow>
     (\<exists>cs. s = 0x7B # cs \<and> (\<exists>kvs. scan_pairs n (skip_ws cs) = Some (kvs, r) \<and> v = PDict kvs) \<or>
           s = 0x5B # cs \<and> (\<exists>vs. scan_items n (skip_ws cs) = Some (vs, r) \<and> v = PList vs))"
proof -
  obtain c cs where s: "s = c # cs"
    using assms by (cases s) (auto simp: nested_def)
  consider (obj) "c = 0x7B" "expect 0x7D (skip_ws cs) = None"
    | (arr) "c = 0x5B" "expect 0x5D (skip_ws cs) = None"
    using assms s by (auto simp: nested_def)
  then show ?thesis
  proof cases
    case obj
    then show ?thesis unfolding s by (auto split: option.splits)
  next
    case arr
    then show ?thesis unfolding s by (auto split: option.splits)
  qed
qed

lemma scan_once_flat_consumes:
  assumes "\<not> nested s" and "scan_once (Suc 0) s = Some (v, r)"
  shows "length r < length s"
proof -
  obtain c cs where s: "s = c # cs"
    using assms(2) by (cases s) auto
  consider (str) "c = 0x22" | (obj) "c = 0x7B" | (arr) "c = 0x5B"
    | (other) "c \<noteq> 0x22" "c \<noteq> 0x7B" "c \<noteq> 0x5B"
    by blast
  then show ?thesis
  proof cases
    case str
    then obtain content where "scanstring cs = Some (content, r)"
      using assms(2) s by (auto split: option.splits)
    then show ?thesis using scanstring_consumes s by fastforce
  next
    case obj
    then obtain r' where e: "expect 0x7D (skip_ws cs) = Some r'"
      using assms(1) s by (auto simp: nested_def)
    then have "r = r'" using obj assms(2) s by simp
    then have "length (skip_ws cs) = Suc (length r)"
      using e by (simp add: expect_Some)
    then show ?thesis using length_skip_ws[of cs] s by simp
  next
    case arr
    then obtain r' where e: "expect 0x5D (skip_ws cs) = Some r'"
      using assms(1) s by (auto simp: nested_def)
    then have "r = r'" using arr assms(2) s by simp
    then have "length (skip_ws cs) = Suc (length r)"
      using e by (simp add: expect_Some)
    then show ?thesis using length_skip_ws[of cs] s by simp
  next
    case other
    then have "(\<exists>k. r = drop k cs) \<or> match_number s = Some (v, r)"
      using assms(2) s by (auto split: if_splits)
    then show ?thesis
      using match_number_consumes[of s v r] s by auto
  qed
qed

lemma scan_fuel:
  "(\<forall>s v r. scan_once m s = Some (v, r) \<longrightarrow>
      length r < length s \<and> (\<forall>n. length s - length r \<le> n \<longrightarrow> scan_once n s = Some (v, r))) \<and>
   (\<forall>s vs r. scan_items m s = Some (vs, r) \<longrightarrow>
      length r < length s \<and> (\<forall>n. length s - length r \<le> n \<longrightarrow> scan_items n s = Some (vs, r))) \<and>
   (\<forall>s kvs r. scan_pairs m s = Some (kvs, r) \<longrightarrow>
      length r < length s \<and> (\<forall>n. length s - length r \<le> n \<longrightarrow> scan_pairs n s = Some (kvs, r)))"
proof (induction m)
  case 0
  show ?case by simp
next
  case (Suc m)
  have once: "length r < length s \<and> (length s - length r \<le> n \<longrightarrow> scan_once n s = Some (v, r))"
    if "scan_once m s = Some (v, r)" for s v r n
    using Suc that by blast
  have items: "length r < length s \<and> (length s - length r \<le> n \<longrightarrow> scan_items n s = Some (vs, r))"
    if "scan_items m s = Some (vs, r)" for s vs r n
    using Suc that by blast
  have pairs: "length r < length s \<and> (length s - length r \<le> n \<longrightarrow> scan_pairs n s = Some (kvs, r))"
    if "scan_pairs m s = Some (kvs, r)" for s kvs r n
    using Suc that by blast
  have A: "length r < length s \<and> (length s - length r \<le> n \<longrightarrow> scan_items n s = Some (vs, r))"
    if a: "scan_items (Suc m) s = Some (vs, r)" for s vs r n
  proof -
    obtain v r1 c r2 where v: "scan_once m s = Some (v, r1)" and w: "skip_ws r1 = c # r2"
      and d: "c = 0x5D \<and> vs = [v] \<and> r = r2 \<or>
         c = 0x2C \<and> (\<exists>vs'. scan_items m (skip_ws r2) = Some (vs', r) \<and> vs = v # vs')"
      using a unfolding scan_items_Suc by blast
    have l1: "length r1 < length s" using once[OF v] by blast
    have l2: "length r2 < length r1" using w length_skip_ws[of r1] by simp
    have l3: "length r \<le> length r2"
      using d items length_skip_ws[of r2] by (metis less_imp_le_nat order_refl order_trans)
    show ?thesis
    proof (intro conjI impI)
      show "length r < length s" using l1 l2 l3 by simp
      assume n: "length s - length r \<le> n"
      then obtain n' where n': "n = Suc n'" using l1 l2 l3 by (cases n) auto
      have "scan_once n' s = Some (v, r1)"
        using once[OF v, of n'] n n' l1 l2 l3 by simp
      moreover have "scan_items n' (skip_ws r2) = Some (vs', r)"
        if "scan_items m (skip_ws r2) = Some (vs', r)" for vs'
        using items[OF that, of n'] n n' l1 l2 l3 length_skip_ws[of r2] by simp
      ultimately show "scan_items n s = Some (vs, r)"
        unfolding n' scan_items_Suc using w d by blast
    qed
  qed
  have B: "length r < length s \<and> (length s - length r \<le> n \<longrightarrow> scan_pairs n s = Some (kvs, r))"
    if a: "scan_pairs (Suc m) s = Some (kvs, r)" for s kvs r n
  proof -
    obtain r1 key r2 r3 v r4 c r5 where s: "s = 0x22 # r1" and k: "scanstring r1 = Some (key, r2)"
      and w2: "skip_ws r2 = 0x3A # r3" and v: "scan_once m (skip_ws r3) = Some (v, r4)"
      and w4: "skip_ws r4 = c # r5"
      and d: "c = 0x7D \<and> kvs = [(key, v)] \<and> r = r5 \<or>
         c = 0x2C \<and> (\<exists>kvs'. scan_pairs m (skip_ws r5) = Some (kvs', r) \<and> kvs = (key, v) # kvs')"
      using a unfolding scan_pairs_Suc by blast
    have l1: "length r2 < length r1" using scanstring_consumes[OF k] .
    have l2: "length r3 < length r2" using w2 length_skip_ws[of r2] by simp
    have l3: "length r4 < length (skip_ws r3)" using once[OF v] by blast
    have l3': "length (skip_ws r3) \<le> length r3" by (rule length_skip_ws)
    have l4: "length r5 < length r4" using w4 length_skip_ws[of r4] by simp
    have l5: "length r \<le> length r5"
      using d pairs length_skip_ws[of r5] by (metis less_imp_le_nat order_refl order_trans)
    show ?thesis
    proof (intro conjI impI)
      show "length r < length s" using s l1 l2 l3 l3' l4 l5 by simp
      assume n: "length s - length r \<le> n"
      then obtain n' where n': "n = Suc n'" using s l1 l2 l3 l3' l4 l5 by (cases n) auto
      have "scan_once n' (skip_ws r3) = Some (v, r4)"
        using once[OF v, of n'] n n' s l1 l2 l3 l3' l4 l5 by simp
      moreover have "scan_pairs n' (skip_ws r5) = Some (kvs', r)"
        if "scan_pairs m (skip_ws r5) = Some (kvs', r)" for kvs'
        using pairs[OF that, of n'] n n' s l1 l2 l3 l3' l4 l5 length_skip_ws[of r5] by simp
      ultimately show "scan_pairs n s = Some (kvs, r)"
        unfolding n' scan_pairs_Suc using s k w2 w4 d by blast
    qed
  qed
  have C: "length r < length s \<and> (length s - length r \<le> n \<longrightarrow> scan_once n s = Some (v, r))"
    if a: "scan_once (Suc m) s = Some (v, r)" for s v r n
  proof (cases "nested s")
    case False
    have f: "scan_once (Suc 0) s = Some (v, r)"
      using a unfolding scan_once_flat[OF False, of m] .
    have l: "length r < length s"
      by (rule scan_once_flat_consumes[OF False f])
    show ?thesis
    proof (intro conjI impI)
      show "length r < length s" by (rule l)
      assume "length s - length r \<le> n"
      then obtain n' where n': "n = Suc n'" using l by (cases n) auto
      show "scan_once n s = Some (v, r)"
        unfolding n' scan_once_flat[OF False, of n'] by (rule f)
    qed
  next
    case True
    then obtain cs where d: "s = 0x7B # cs \<and> (\<exists>kvs. scan_pairs m (skip_ws cs) = Some (kvs, r) \<and> v = PDict kvs) \<or>
           s = 0x5B # cs \<and> (\<exists>vs. scan_items m (skip_ws cs) = Some (vs, r) \<and> v = PList vs)"
      using a scan_once_nested[OF True] by blast
    then have s: "length s = Suc (length cs)" by auto
    have l: "length r < length (skip_ws cs)"
      using d pairs items by blast
    have l': "length (skip_ws cs) \<le> length cs" by (rule length_skip_ws)
    show ?thesis
    proof (intro conjI impI)
      show "length r < length s" using s l l' by simp
      assume n: "length s - length r \<le> n"
      then obtain n' where n': "n = Suc n'" using s l l' by (cases n) auto
      have "scan_pairs n' (skip_ws cs) = Some (kvs, r)"
        if "scan_pairs m (skip_ws cs) = Some (kvs, r)" for kvs
        using pairs[OF that, of n'] n n' s l l' by simp
      moreover have "scan_items n' (skip_ws cs) = Some (vs, r)"
        if "scan_items m (skip_ws cs) = Some (vs, r)" for vs
        using items[OF that, of n'] n n' s l l' by simp
      ultimately show "scan_once n s = Some (v, r)"
        unfolding n' scan_once_nested[OF True] using d by blast
    qed
  qed
  show ?case using A B C by blast
qed

text \<open>
  Whatever bound lets the scanner read a value, \<open>json_loads\<close> reads the same value: its
  own bound is never what makes it fail.
\<close>

lemma json_loads_any_fuel:
  assumes "scan_once m (skip_ws s) = Some (v, r)" and "skip_ws r = []"
  shows "json_loads s = Some v"
proof -
  have "length (skip_ws s) - length r \<le> Suc (length s)"
    using length_skip_ws[of s] by simp
  then have "scan_once (Suc (length s)) (skip_ws s) = Some (v, r)"
    using scan_fuel[of m] assms(1) by blast
  then show ?thesis
    using assms(2) by (simp add: json_loads_def)
qed

lemma json_loads_None_any_fuel:
  assumes "json_loads s = None" and "scan_once m (skip_ws s) = Some (v, r)"
  shows "skip_ws r \<noteq> []"
  using json_loads_any_fuel[OF assms(2)] assms(1) by auto

section \<open>Lemmas about \<open>reader.py\<close>\<close>

subsection \<open>The two halves of \<open>_process_message\<close>\<close>

lemma decode_batch_fields:
  assumes "decode_batch U buff = Inr (jsonify, incoming)"
  shows "subscript jsonify (lit ''sender'') = Inr (PStr (sender incoming))"
    and "subscript jsonify (lit ''message'') = Inr (PStr (message incoming))"
  using assms
  by (auto simp: decode_batch_def Message_init_def Let_def
        split: sum.splits option.splits pyobj.splits)

lemma decode_batch_text:
  assumes "decode_batch U buff = Inr (jsonify, incoming)"
  shows "\<exists>decoded. decode_all buff = Inr decoded \<and>
           json_loads (lower U (strip (concat decoded))) = Some jsonify"
  using assms
  by (auto simp: decode_batch_def Let_def split: sum.splits option.splits)

lemma decode_batchI:
  assumes "decode_all buff = Inr decoded"
    and "json_loads (lower U (strip (concat decoded))) = Some jsonify"
    and "subscript jsonify (lit ''sender'') = Inr (PStr s)"
    and "subscript jsonify (lit ''message'') = Inr (PStr m)"
  shows "decode_batch U buff = Inr (jsonify, \<lparr>sender = s, message = m\<rparr>)"
  using assms by (simp add: decode_batch_def Message_init_def)

lemma decode_all_Inl: "decode_all buff = Inl e \<Longrightarrow> e = UnicodeDecodeError"
  by (induction buff arbitrary: e) (auto simp: decode_utf8_def split: sum.splits option.splits)

lemma greet_is_not_joke: "lit ''greet'' \<noteq> lit ''joke''"
  by (simp add: lit_def)

subsection \<open>The handler of \<open>MyReader.read\<close>\<close>

lemma logging_is_unbound: "global_name reader_globals ''logging'' = Inl NameError"
  by (simp add: global_name_def reader_globals_def)

lemma reader_read_raises:
  assumes "read_try U self_id prov ans = Inl e"
  shows "reader_read U self_id prov ans = Inl NameError"
  using assms by (simp add: reader_read_def logging_is_unbound)

lemma reader_read_returns:
  assumes "read_try U self_id prov ans = Inr r"
  shows "reader_read U self_id prov ans = Inr r"
  using assms by (simp add: reader_read_def)

lemma reader_read_only_NameError:
  assumes "reader_read U self_id prov ans = Inl e"
  shows "e = NameError"
  using assms by (auto simp: reader_read_def logging_is_unbound split: sum.splits)

subsection \<open>Evaluation of the examples\<close>

lemmas eval_defs = decode_batch_def decode_utf8_def strip_def isspace_def lower_def isascii_def
  ascii_lower_def json_loads_def skip_ws_def expect_def prepend_def lit_def Message_init_def

lemma decode_greet_example:
  \<open>decode_batch U [''{"sender":"alex","message":"greet"}''] =
     Inr (PDict [(lit ''sender'', PStr (lit ''alex'')), (lit ''message'', PStr (lit ''greet''))],
          \<lparr>sender = lit ''alex'', message = lit ''greet''\<rparr>)\<close>
  by (simp add: eval_defs)

lemma decode_hello_example:
  \<open>decode_batch U [''{"sender":"alex","message":"hello there"}''] =
     Inr (PDict [(lit ''sender'', PStr (lit ''alex'')),
                 (lit ''message'', PStr (lit ''hello there''))],
          \<lparr>sender = lit ''alex'', message = lit ''hello there''\<rparr>)\<close>
  by (simp add: eval_defs)

lemma decode_fragments_example:
  \<open>decode_batch U [''{"sender":"alex",'', '' "message":"Hello There"}  ''] =
     Inr (PDict [(lit ''sender'', PStr (lit ''alex'')),
                 (lit ''message'', PStr (lit ''hello there''))],
          \<lparr>sender = lit ''alex'', message = lit ''hello there''\<rparr>)\<close>
  by (simp add: eval_defs)

lemma process_padded_example:
  \<open>process_message U (lit ''tim'') prov
       [CHR 0x0B # ''{"SENDER":"Alex",'', '' "MESSAGE":"Hello There"}'' @ [CHR 0x0C]] =
     Inr (Some \<lparr>sender = lit ''alex'', message = lit ''hello there''\<rparr>)\<close>
  by (simp add: process_message_def eval_defs)

lemma process_split_example:
  \<open>process_message U (lit ''tim'') prov
       [''{"sender":"alex","message":"caf'' @ [CHR 0xC3], CHR 0xA9 # ''"}''] =
     Inl UnicodeDecodeError\<close>
  by (simp add: process_message_def decode_batch_def decode_utf8_def is_cont_def)

lemma utf8_split_example:
  \<open>utf8 (concat (map (map of_char)
       [''{"sender":"alex","message":"caf'' @ [CHR 0xC3], CHR 0xA9 # ''"}''])) =
     Some (lit ''{"sender":"alex","message":"caf'' @ 0xE9 # lit ''"}'')\<close>
  by (simp add: lit_def is_cont_def is_surrogate_def)

lemma loads_split_example:
  \<open>json_loads (lower id (strip (lit ''{"sender":"alex","message":"caf'' @ 0xE9 # lit ''"}''))) =
     Some (PDict [(lit ''sender'', PStr (lit ''alex'')),
                  (lit ''message'', PStr (lit ''caf'' @ [0xE9]))])\<close>
  by (simp add: eval_defs)

lemma decode_accent_example:
  \<open>decode_batch id [''{"sender":"alex","message":"caf'' @ [CHR 0xC3, CHR 0xA9] @ ''"}''] =
     Inr (PDict [(lit ''sender'', PStr (lit ''alex'')),
                 (lit ''message'', PStr (lit ''caf'' @ [0xE9]))],
          \<lparr>sender = lit ''alex'', message = lit ''caf'' @ [0xE9]\<rparr>)\<close>
  by (simp add: eval_defs is_cont_def is_surrogate_def)

lemma decode_escaped_example:
  \<open>decode_batch U [''{"sender":"alex","message":"  '' @ CHR 0x5C # ''u0048i there "}''] =
     Inr (PDict [(lit ''sender'', PStr (lit ''alex'')),
                 (lit ''message'', PStr (lit ''  Hi there ''))],
          \<lparr>sender = lit ''alex'', message = lit ''  Hi there ''\<rparr>)\<close>
  by (simp add: eval_defs hexval_def)

lemma process_escaped_example:
  \<open>process_message U (lit ''tim'') prov
       [''{"sender":"alex","message":"  '' @ CHR 0x5C # ''u0048i there "}''] =
     Inr (Some \<lparr>sender = lit ''alex'', message = lit ''  Hi there ''\<rparr>)\<close>
  by (simp add: process_message_def eval_defs hexval_def)

lemma normalise_escaped_example:
  "lower U (strip (lit ''  Hi there '')) = lit ''hi there''"
  "lit ''  Hi there '' \<noteq> lit ''hi there''"
  "lit ''  Hi there '' \<noteq> lit ''greet''" "lit ''  Hi there '' \<noteq> lit ''joke''"
  by (simp_all add: lit_def isascii_def lower_def strip_def isspace_def ascii_lower_def)

lemma accent_differs:
  "lit ''caf'' @ [0xE9] \<noteq> lit ''greet''" "lit ''caf'' @ [0xE9] \<noteq> lit ''joke''"
  by (simp_all add: lit_def)

lemma raw_upper_keys_example:
  \<open>decode_all [''{"SENDER":"ALEX","MESSAGE":"GREET"}''] =
     Inr [lit ''{"SENDER":"ALEX","MESSAGE":"GREET"}'']\<close>
  \<open>json_loads (lit ''{"SENDER":"ALEX","MESSAGE":"GREET"}'') =
     Some (PDict [(lit ''SENDER'', PStr (lit ''ALEX'')), (lit ''MESSAGE'', PStr (lit ''GREET''))])\<close>
  \<open>map_of (rev [(lit ''SENDER'', PStr (lit ''ALEX'')), (lit ''MESSAGE'', PStr (lit ''GREET''))])
     (lit ''sender'') = None\<close>
  \<open>map_of (rev [(lit ''SENDER'', PStr (lit ''ALEX'')), (lit ''MESSAGE'', PStr (lit ''GREET''))])
     (lit ''message'') = None\<close>
  by (simp_all add: decode_utf8_def json_loads_def skip_ws_def expect_def prepend_def lit_def)

lemma process_upper_keys_example:
  \<open>process_message U (lit ''tim'') prov [''{"SENDER":"ALEX","MESSAGE":"GREET"}''] =
     Inr (Some \<lparr>sender = lit ''alex'', message = lit ''alex says hi!''\<rparr>)\<close>
  by (simp add: process_message_def eval_defs greet_def)

lemma raw_upper_null_example:
  \<open>decode_all [''{"sender":"alex","message":"hi","k":NULL}''] =
     Inr [lit ''{"sender":"alex","message":"hi","k":NULL}'']\<close>
  \<open>json_loads (lit ''{"sender":"alex","message":"hi","k":NULL}'') = None\<close>
  by (simp_all add: decode_utf8_def json_loads_def skip_ws_def expect_def prepend_def lit_def
        match_number_def match_int_def)

lemma process_upper_null_example:
  \<open>process_message U (lit ''tim'') prov [''{"sender":"alex","message":"hi","k":NULL}''] =
     Inr (Some \<lparr>sender = lit ''alex'', message = lit ''hi''\<rparr>)\<close>
  by (simp add: process_message_def eval_defs)

lemma decode_all_nan_example:
  \<open>decode_all [''{"sender":"alex","message":NaN}''] =
     Inr [lit ''{"sender":"alex","message":NaN}'']\<close>
  by (simp add: decode_utf8_def lit_def)

lemma loads_nan_example:
  \<open>json_loads (lower U (strip (concat [lit ''{"sender":"alex","message":NaN}'']))) = None\<close>
  by (simp add: eval_defs match_number_def match_int_def)

lemma decode_all_padded_nomessage_example:
  \<open>decode_all [CHR 0x0B # ''{"sender":"alex"}''] = Inr [0x0B # lit ''{"sender":"alex"}'']\<close>
  by (simp add: decode_utf8_def lit_def)

lemma loads_padded_nomessage_example:
  \<open>json_loads (lower U (strip (concat [0x0B # lit ''{"sender":"alex"}'']))) =
     Some (PDict [(lit ''sender'', PStr (lit ''alex''))])\<close>
  by (simp add: eval_defs)

lemma decode_all_padded_example:
  \<open>decode_all [CHR 0x0B # ''{"SENDER":"Alex",'', '' "MESSAGE":"Hello There"}'' @ [CHR 0x0C]] =
     Inr [0x0B # lit ''{"SENDER":"Alex",'', lit '' "MESSAGE":"Hello There"}'' @ [0x0C]]\<close>
  by (simp add: decode_utf8_def lit_def)

lemma loads_padded_example:
  \<open>json_loads (lower U (strip (concat
       [0x0B # lit ''{"SENDER":"Alex",'', lit '' "MESSAGE":"Hello There"}'' @ [0x0C]]))) =
     Some (PDict [(lit ''sender'', PStr (lit ''alex'')),
                  (lit ''message'', PStr (lit ''hello there''))])\<close>
  by (simp add: eval_defs)

lemma decode_all_accent_example:
  \<open>decode_all [''{"sender":"alex","message":"caf'' @ [CHR 0xC3, CHR 0xA9] @ ''"}''] =
     Inr [lit ''{"sender":"alex","message":"caf'' @ 0xE9 # lit ''"}'']\<close>
  by (simp add: decode_utf8_def lit_def is_cont_def is_surrogate_def)

lemma hello_fields:
  \<open>subscript (PDict [(lit ''sender'', PStr (lit ''alex'')),
                      (lit ''message'', PStr (lit ''hello there''))]) (lit ''sender'') =
     Inr (PStr (lit ''alex''))\<close>
  \<open>subscript (PDict [(lit ''sender'', PStr (lit ''alex'')),
                      (lit ''message'', PStr (lit ''hello there''))]) (lit ''message'') =
     Inr (PStr (lit ''hello there''))\<close>
  by (simp_all add: lit_def)

lemma accent_fields:
  \<open>subscript (PDict [(lit ''sender'', PStr (lit ''alex'')),
                      (lit ''message'', PStr (lit ''caf'' @ [0xE9]))]) (lit ''sender'') =
     Inr (PStr (lit ''alex''))\<close>
  \<open>subscript (PDict [(lit ''sender'', PStr (lit ''alex'')),
                      (lit ''message'', PStr (lit ''caf'' @ [0xE9]))]) (lit ''message'') =
     Inr (PStr (lit ''caf'' @ [0xE9]))\<close>
  by (simp_all add: lit_def)

lemma decode_joke_example:
  \<open>decode_batch U [''{"sender":"alex","message":"joke"}''] =
     Inr (PDict [(lit ''sender'', PStr (lit ''alex'')), (lit ''message'', PStr (lit ''joke''))],
          \<lparr>sender = lit ''alex'', message = lit ''joke''\<rparr>)\<close>
  by (simp add: eval_defs)

lemma decode_own_example:
  \<open>decode_batch U [''{"sender":"tim","message":"joke"}''] =
     Inr (PDict [(lit ''sender'', PStr (lit ''tim'')), (lit ''message'', PStr (lit ''joke''))],
          \<lparr>sender = lit ''tim'', message = lit ''joke''\<rparr>)\<close>
  by (simp add: eval_defs)

lemma names_differ:
  "lit ''alex'' \<noteq> lit ''tim''" "lit ''hello there'' \<noteq> lit ''greet''"
  "lit ''hello there'' \<noteq> lit ''joke''"
  by (simp_all add: lit_def)

lemma process_greet_example:
  \<open>process_message U (lit ''tim'') prov [''{"sender":"alex","message":"greet"}''] =
     Inr (Some \<lparr>sender = lit ''alex'', message = lit ''alex says hi!''\<rparr>)\<close>
  by (simp add: process_message_def decode_greet_example greet_def Message_init_def)
     (simp add: lit_def)

lemma process_hello_example:
  \<open>process_message U (lit ''tim'') prov [''{"sender":"alex","message":"hello there"}''] =
     Inr (Some \<lparr>sender = lit ''alex'', message = lit ''hello there''\<rparr>)\<close>
  by (simp add: process_message_def decode_hello_example Message_init_def)
     (simp add: lit_def)

lemma process_nonjson_example:
  \<open>process_message U (lit ''tim'') prov [''hello''] = Inl JSONDecodeError\<close>
  by (simp add: process_message_def eval_defs match_number_def match_int_def)

lemma decode_all_undecodable_example: \<open>decode_all [[CHR 0xFF]] = Inl UnicodeDecodeError\<close>
  by (simp add: decode_utf8_def)

lemma decode_all_nonjson_example: \<open>decode_all [''hello''] = Inr [lit ''hello'']\<close>
  by (simp add: decode_utf8_def lit_def)

lemma loads_nonjson_example: \<open>json_loads (lower U (strip (concat [lit ''hello'']))) = None\<close>
  by (simp add: eval_defs match_number_def match_int_def)

lemma decode_all_nomessage_example:
  \<open>decode_all [''{"sender":"alex"}''] = Inr [lit ''{"sender":"alex"}'']\<close>
  by (simp add: decode_utf8_def lit_def)

lemma loads_nomessage_example:
  \<open>json_loads (lower U (strip (concat [lit ''{"sender":"alex"}'']))) =
     Some (PDict [(lit ''sender'', PStr (lit ''alex''))])\<close>
  by (simp add: eval_defs)

lemma nomessage_lookup:
  \<open>map_of (rev [(lit ''sender'', PStr (lit ''alex''))]) (lit ''message'') = None\<close>
  by (simp add: lit_def)

lemma tell_joke_bad_body_example: \<open>tell_joke (Inr (lit ''Service Unavailable'')) = Inl JSONDecodeError\<close>
  by (simp add: tell_joke_def json_loads_def skip_ws_def lit_def match_number_def match_int_def)

lemma writer_write_example:
  \<open>writer_write (lit ''alex'') (lit ''Hi'') [] = Inr [''{"sender": "alex", "message": "Hi"}'']\<close>
  by (simp add: writer_write_def format_message_def Message_init_def Message_json_def
      encode_basestring_ascii_def escape_char_def lit_def write_event_def encode_cp_def
      char_of_eq_iff)

lemma decode_written_example:
  \<open>decode_batch U [''{"sender": "alex", "message": "Hi"}''] =
     Inr (PDict [(lit ''sender'', PStr (lit ''alex'')), (lit ''message'', PStr (lit ''hi''))],
          \<lparr>sender = lit ''alex'', message = lit ''hi''\<rparr>)\<close>
  by (simp add: eval_defs)

lemma read_try_nonjson_example:
  \<open>read_try U (lit ''tim'') prov (Inr [''hello'']) = Inl JSONDecodeError\<close>
  by (simp add: read_try_def process_nonjson_example)

lemma read_try_joke_example:
  \<open>read_try U (lit ''tim'') (Inl ConnectionError) (Inr [''{"sender":"alex","message":"joke"}'']) =
     Inl ConnectionError\<close>
  using decode_batch_fields(2)[OF decode_joke_example[of U]] greet_is_not_joke names_differ(1)
  by (simp add: read_try_def process_message_def decode_joke_example tell_joke_def)

lemma read_try_broker_example: "read_try U self_id prov (Inl BrokerError) = Inl BrokerError"
  by (simp add: read_try_def)

lemma read_try_empty_example: "read_try U self_id prov (Inr []) = Inr None"
  by (simp add: read_try_def)

section \<open>Lemmas about \<open>chatter.py\<close>\<close>

subsection \<open>The read loop\<close>

lemma chatter_read_reads:
  "reads (chatter_read U self_id ts st) \<le> reads st + length (takeWhile running ts)"
proof (induction ts arbitrary: st)
  case Nil
  show ?case by simp
next
  case (Cons t ts)
  have step: "reads (chatter_read U self_id ts (st\<lparr>reads := reads st + 1, console := out\<rparr>)) \<le>
                Suc (reads st + length (takeWhile running ts))" for out
    using Cons.IH[of "st\<lparr>reads := reads st + 1, console := out\<rparr>"] by simp
  have step': "reads (chatter_read U self_id ts (st\<lparr>reads := reads st + 1\<rparr>)) \<le>
                Suc (reads st + length (takeWhile running ts))"
    using Cons.IH[of "st\<lparr>reads := reads st + 1\<rparr>"] by simp
  show ?case
    using step step'
    by (auto simp: reader_close_def split: sum.splits option.splits prod.splits)
qed

lemma chatter_read_offline:
  "offline (chatter_read U self_id ts st) =
     (if ending (chatter_read U self_id ts st) = Returned then offline st + 1 else offline st)"
proof (induction ts arbitrary: st)
  case Nil
  show ?case by simp
next
  case (Cons t ts)
  have step: "offline (chatter_read U self_id ts (st\<lparr>reads := reads st + 1, console := out\<rparr>)) =
     (if ending (chatter_read U self_id ts (st\<lparr>reads := reads st + 1, console := out\<rparr>)) = Returned
      then offline st + 1 else offline st)" for out
    using Cons.IH[of "st\<lparr>reads := reads st + 1, console := out\<rparr>"] by simp
  have step': "offline (chatter_read U self_id ts (st\<lparr>reads := reads st + 1\<rparr>)) =
     (if ending (chatter_read U self_id ts (st\<lparr>reads := reads st + 1\<rparr>)) = Returned
      then offline st + 1 else offline st)"
    using Cons.IH[of "st\<lparr>reads := reads st + 1\<rparr>"] by simp
  show ?case
    using step step'
    by (auto simp: reader_close_def split: sum.splits option.splits prod.splits)
qed

subsection \<open>Stripping and lower-casing ASCII text\<close>

lemma isspace_ascii_lower: "isspace (ascii_lower c) = isspace c"
  by (auto simp: isspace_def ascii_lower_def)

lemma ascii_lower_idem: "ascii_lower (ascii_lower c) = ascii_lower c"
  by (simp add: ascii_lower_def)

lemma ascii_lower_ascii: "c < 0x80 \<Longrightarrow> ascii_lower c < 0x80"
  by (simp add: ascii_lower_def)

lemma dropWhile_isspace_lower:
  "dropWhile isspace (map ascii_lower s) = map ascii_lower (dropWhile isspace s)"
  by (induction s) (simp_all add: isspace_ascii_lower)

lemma strip_lower: "strip (map ascii_lower s) = map ascii_lower (strip s)"
  by (simp add: strip_def dropWhile_isspace_lower rev_map)

lemma last_dropWhile:
  "dropWhile P xs \<noteq> [] \<Longrightarrow> last (dropWhile P xs) = last xs"
  by (induction xs) (auto split: if_splits)

lemma strip_strip: "strip (strip s) = strip s"
proof (cases "strip s = []")
  case True
  have "strip [] = []" by (simp add: strip_def)
  then show ?thesis using True by simp
next
  case False
  define t where "t = dropWhile isspace s"
  define u where "u = dropWhile isspace (rev t)"
  have s: "strip s = rev u" by (simp add: strip_def t_def u_def)
  then have u: "u \<noteq> []" using False by simp
  then have t: "t \<noteq> []" by (auto simp: u_def)
  have "\<not> isspace (hd u)"
    using u unfolding u_def by (rule hd_dropWhile)
  then have l: "\<not> isspace (last (strip s))"
    using u by (simp add: s last_rev)
  have "last u = last (rev t)"
    using u unfolding u_def by (rule last_dropWhile)
  then have "hd (strip s) = hd t"
    using u t by (simp add: s hd_rev last_rev)
  moreover have "\<not> isspace (hd t)"
    using t unfolding t_def by (rule hd_dropWhile)
  ultimately have h: "\<not> isspace (hd (strip s))" by simp
  show ?thesis
    by (rule strip_ends[OF False h l])
qed

lemma isascii_strip: "isascii s \<Longrightarrow> isascii (strip s)"
proof -
  have "x \<in> set s" if "x \<in> set (strip s)" for x
    using that unfolding strip_def by (auto dest!: set_dropWhileD)
  then show "isascii s \<Longrightarrow> isascii (strip s)"
    by (auto simp: isascii_def list_all_iff)
qed

lemma isascii_lower: "isascii s \<Longrightarrow> isascii (map ascii_lower s)"
  by (induction s) (simp_all add: isascii_def ascii_lower_ascii)

lemma normalised_ascii:
  assumes "isascii line"
  shows "lower U (strip line) = map ascii_lower (strip line)"
    and "lower U (lower U (strip line)) = lower U (strip line)"
    and "strip (lower U (strip line)) = lower U (strip line)"
    and "lower U (strip line) = [] \<longleftrightarrow> strip line = []"
proof -
  have a: "isascii (strip line)" by (rule isascii_strip[OF assms])
  show n: "lower U (strip line) = map ascii_lower (strip line)"
    by (rule lower_ascii[OF a])
  show "lower U (lower U (strip line)) = lower U (strip line)"
    unfolding n lower_ascii[OF isascii_lower[OF a]] by (simp add: ascii_lower_idem)
  show "strip (lower U (strip line)) = lower U (strip line)"
    unfolding n strip_lower strip_strip ..
  show "lower U (strip line) = [] \<longleftrightarrow> strip line = []"
    unfolding n by simp
qed

subsection \<open>The write loop\<close>

lemma chatter_write_published:
  "chatter_write U self_id (map (Pair True) lines) stream =
     Inr (stream @
          map (\<lambda>t. map char_of (Message_json \<lparr>sender = self_id, message = t\<rparr>))
            (filter (\<lambda>t. t \<noteq> []) (map (\<lambda>l. lower U (strip l)) lines)))"
  by (induction lines arbitrary: stream) (simp_all add: writer_write_wire Let_def)

lemma normalise_example:
  "isascii (lit ''  Hello World '')"
  "lower U (strip (lit ''  Hello World '')) = lit ''hello world''"
  "lower U (strip (lit ''   '')) = []"
  "strip (lit ''  Hello World '') \<noteq> []"
  by (simp_all add: lit_def isascii_def lower_def strip_def isspace_def ascii_lower_def)

lemma wire_example:
  \<open>map char_of (Message_json \<lparr>sender = lit ''tim'', message = lit ''hello world''\<rparr>) =
     ''{"sender": "tim", "message": "hello world"}''\<close>
  by (simp add: Message_json_def encode_basestring_ascii_def escape_char_def lit_def
        char_of_eq_iff)

section \<open>The claims\<close>

text \<open>
  C1. Round trip of the envelope. As stated the claim fails: the processor lower-cases the
  whole text before parsing it, so \<open>Hi\<close> written by \<open>alex\<close> is decoded as \<open>hi\<close>.
\<close>

theorem roundtrip_counterexample:
  \<open>writer_write (lit ''alex'') (lit ''Hi'') [] = Inr [''{"sender": "alex", "message": "Hi"}''] \<and>
   decode_batch id [''{"sender": "alex", "message": "Hi"}''] =
     Inr (PDict [(lit ''sender'', PStr (lit ''alex'')), (lit ''message'', PStr (lit ''hi''))],
          \<lparr>sender = lit ''alex'', message = lit ''hi''\<rparr>) \<and>
   \<lparr>sender = lit ''alex'', message = lit ''hi''\<rparr> \<noteq> \<lparr>sender = lit ''alex'', message = lit ''Hi''\<rparr>\<close>
  using writer_write_example decode_written_example[of id]
  by (simp add: lit_def)

text \<open>
  C1, amended. For a sender and a message of Unicode scalar values, the writer publishes one
  event, and decoding the batch of that event gives the sender and the message with the
  ASCII letters \<open>A\<close> to \<open>Z\<close> lower-cased and every other character as it was: the
  originals exactly when they hold no such letter.
\<close>

theorem roundtrip_lower_cases:
  assumes "list_all scalar s" and "list_all scalar m"
  shows "\<exists>b jsonify. writer_write s m [] = Inr [b] \<and>
           decode_batch U [b] =
             Inr (jsonify, \<lparr>sender = map ascii_lower s, message = map ascii_lower m\<rparr>)"
  using decode_batch_Message_json[of "\<lparr>sender = s, message = m\<rparr>" U] assms
    writer_write_wire[of s m "[]"]
  by simp

theorem roundtrip_lower_cases_witness:
  \<open>list_all scalar (lit ''Alex'') \<and> list_all scalar (lit ''Hi there'') \<and>
   (\<exists>b jsonify. writer_write (lit ''Alex'') (lit ''Hi there'') [] = Inr [b] \<and>
      decode_batch id [b] =
        Inr (jsonify, \<lparr>sender = lit ''alex'', message = lit ''hi there''\<rparr>))\<close>
proof -
  have v: "list_all scalar (lit ''Alex'')" "list_all scalar (lit ''Hi there'')"
    by (simp_all add: lit_def scalar_def is_surrogate_def)
  have l: "map ascii_lower (lit ''Alex'') = lit ''alex''"
    "map ascii_lower (lit ''Hi there'') = lit ''hi there''"
    by (simp_all add: lit_def ascii_lower_def)
  show ?thesis
    using roundtrip_lower_cases[OF v, of id] v unfolding l by simp
qed

text \<open>
  C2. Self-echo suppression: whenever the sender decoded from a batch is the client's own
  identifier, \<open>_process_message\<close> returns without a response, whatever the message field
  holds and whatever the joke provider would do; the outcome is the plain \<open>return\<close>
  (\<open>Inr None\<close>), not an exception.
\<close>

theorem self_echo_suppressed:
  assumes "decode_batch U buff = Inr (jsonify, incoming)"
    and "sender incoming = self_id"
  shows "process_message U self_id prov buff = Inr None"
  using assms by (simp add: process_message_def)

theorem self_echo_suppressed_witness:
  \<open>decode_batch id [''{"sender":"tim","message":"joke"}''] =
     Inr (PDict [(lit ''sender'', PStr (lit ''tim'')), (lit ''message'', PStr (lit ''joke''))],
          \<lparr>sender = lit ''tim'', message = lit ''joke''\<rparr>) \<and>
   sender \<lparr>sender = lit ''tim'', message = lit ''joke''\<rparr> = lit ''tim'' \<and>
   process_message id (lit ''tim'') (Inl ConnectionError) [''{"sender":"tim","message":"joke"}''] =
     Inr None\<close>
  using self_echo_suppressed[OF decode_own_example, of "lit ''tim''" id "Inl ConnectionError"]
    decode_own_example[of id]
  by simp

text \<open>
  C3. Sender labelling: every response \<open>_process_message\<close> returns carries the sender of
  the incoming message, and that sender is never the client's own identifier.
\<close>

theorem response_sender_is_incoming_sender:
  assumes "process_message U self_id prov buff = Inr (Some resp)"
  shows "\<exists>jsonify incoming. decode_batch U buff = Inr (jsonify, incoming) \<and>
           sender resp = sender incoming \<and> sender resp \<noteq> self_id"
  using assms
  by (auto simp: process_message_def Message_init_def
        split: sum.splits if_splits pyobj.splits prod.splits)

theorem response_sender_is_incoming_sender_witness:
  \<open>process_message id (lit ''tim'') (Inl ConnectionError) [''{"sender":"alex","message":"greet"}''] =
     Inr (Some \<lparr>sender = lit ''alex'', message = lit ''alex says hi!''\<rparr>) \<and>
   (\<exists>jsonify incoming.
      decode_batch id [''{"sender":"alex","message":"greet"}''] = Inr (jsonify, incoming) \<and>
      sender \<lparr>sender = lit ''alex'', message = lit ''alex says hi!''\<rparr> = sender incoming \<and>
      sender \<lparr>sender = lit ''alex'', message = lit ''alex says hi!''\<rparr> \<noteq> lit ''tim'')\<close>
  using response_sender_is_incoming_sender[OF process_greet_example[of id "Inl ConnectionError"]]
    process_greet_example[of id "Inl ConnectionError"]
  by simp

text \<open>
  C4. The greet command: when the decoded message field is exactly \<open>greet\<close> and the sender
  is not the client itself, the response is the sender's name followed by \<open>says hi!\<close>,
  under the sender's name. In particular the batch \<open>{"sender":"alex","message":"greet"}\<close>
  read by \<open>tim\<close> gives \<open>{"sender":"alex","message":"alex says hi!"}\<close>.
\<close>

theorem greet_command:
  \<open>(decode_batch U buff = Inr (jsonify, incoming) \<and> sender incoming \<noteq> self_id \<and>
      message incoming = lit ''greet'' \<longrightarrow>
      process_message U self_id prov buff =
        Inr (Some \<lparr>sender = sender incoming, message = sender incoming @ lit '' says hi!''\<rparr>)) \<and>
   process_message U (lit ''tim'') prov [''{"sender":"alex","message":"greet"}''] =
     Inr (Some \<lparr>sender = lit ''alex'', message = lit ''alex says hi!''\<rparr>)\<close>
proof (intro conjI impI)
  assume a: "decode_batch U buff = Inr (jsonify, incoming) \<and> sender incoming \<noteq> self_id \<and>
      message incoming = lit ''greet''"
  then show "process_message U self_id prov buff =
        Inr (Some \<lparr>sender = sender incoming, message = sender incoming @ lit '' says hi!''\<rparr>)"
    using decode_batch_fields(2)[of U buff jsonify incoming]
    by (simp add: process_message_def Message_init_def greet_def)
next
  show \<open>process_message U (lit ''tim'') prov [''{"sender":"alex","message":"greet"}''] =
     Inr (Some \<lparr>sender = lit ''alex'', message = lit ''alex says hi!''\<rparr>)\<close>
    by (rule process_greet_example)
qed

theorem greet_command_witness:
  \<open>decode_batch id [''{"sender":"alex","message":"greet"}''] =
     Inr (PDict [(lit ''sender'', PStr (lit ''alex'')), (lit ''message'', PStr (lit ''greet''))],
          \<lparr>sender = lit ''alex'', message = lit ''greet''\<rparr>) \<and>
   lit ''alex'' \<noteq> lit ''tim'' \<and>
   process_message id (lit ''tim'') (Inl ConnectionError) [''{"sender":"alex","message":"greet"}''] =
     Inr (Some \<lparr>sender = lit ''alex'', message = lit ''alex'' @ lit '' says hi!''\<rparr>)\<close>
  using greet_command[of id \<open>[''{"sender":"alex","message":"greet"}'']\<close>
      "PDict [(lit ''sender'', PStr (lit ''alex'')), (lit ''message'', PStr (lit ''greet''))]"
      "\<lparr>sender = lit ''alex'', message = lit ''greet''\<rparr>" "lit ''tim''" "Inl ConnectionError"]
    decode_greet_example[of id] names_differ(1)
  by simp

text \<open>
  C5. Passthrough after normalisation. As stated the claim fails in two ways. The message
  of the response is the message field of the object parsed from the lower-cased text, with
  the escapes of the field resolved after the lower-casing and the whitespace inside the
  field kept: the field \<open>"  \u0048i there "\<close> comes back as \<open>  Hi there \<close>, which is
  neither lower-cased nor stripped. And the fragments are decoded one by one before they
  are joined: a character split over two fragments raises \<open>UnicodeDecodeError\<close>, although
  the concatenation of the fragments decodes and parses.
\<close>

theorem passthrough_counterexample:
  \<open>decode_batch id [''{"sender":"alex","message":"  '' @ CHR 0x5C # ''u0048i there "}''] =
     Inr (PDict [(lit ''sender'', PStr (lit ''alex'')),
                 (lit ''message'', PStr (lit ''  Hi there ''))],
          \<lparr>sender = lit ''alex'', message = lit ''  Hi there ''\<rparr>) \<and>
   lit ''alex'' \<noteq> lit ''tim'' \<and> lit ''  Hi there '' \<noteq> lit ''greet'' \<and>
   lit ''  Hi there '' \<noteq> lit ''joke'' \<and>
   process_message id (lit ''tim'') (Inl ConnectionError)
       [''{"sender":"alex","message":"  '' @ CHR 0x5C # ''u0048i there "}''] =
     Inr (Some \<lparr>sender = lit ''alex'', message = lit ''  Hi there ''\<rparr>) \<and>
   lower id (strip (lit ''  Hi there '')) = lit ''hi there'' \<and>
   lit ''  Hi there '' \<noteq> lit ''hi there'' \<and>
   utf8 (concat (map (map of_char)
       [''{"sender":"alex","message":"caf'' @ [CHR 0xC3], CHR 0xA9 # ''"}''])) =
     Some (lit ''{"sender":"alex","message":"caf'' @ 0xE9 # lit ''"}'') \<and>
   json_loads (lower id (strip (lit ''{"sender":"alex","message":"caf'' @ 0xE9 # lit ''"}''))) =
     Some (PDict [(lit ''sender'', PStr (lit ''alex'')),
                  (lit ''message'', PStr (lit ''caf'' @ [0xE9]))]) \<and>
   lit ''caf'' @ [0xE9] \<noteq> lit ''greet'' \<and> lit ''caf'' @ [0xE9] \<noteq> lit ''joke'' \<and>
   process_message id (lit ''tim'') (Inl ConnectionError)
       [''{"sender":"alex","message":"caf'' @ [CHR 0xC3], CHR 0xA9 # ''"}''] =
     Inl UnicodeDecodeError\<close>
  using decode_escaped_example[of id] process_escaped_example[of id "Inl ConnectionError"]
    normalise_escaped_example names_differ(1) utf8_split_example loads_split_example
    accent_differs process_split_example[of id "Inl ConnectionError"]
  by simp

text \<open>
  C5, amended. A batch with a fragment that is not UTF-8 on its own raises
  \<open>UnicodeDecodeError\<close>. When every fragment is UTF-8 on its own, the text the processor
  parses is the fragments decoded and joined in order (which is also the decoding of their
  concatenation), stripped and lower-cased as a whole; when that text parses to an object
  whose sender is not the client itself and whose message is neither \<open>greet\<close> nor \<open>joke\<close>,
  the response carries exactly the sender and the message field of the parsed object. So
  \<open>{"sender":"alex","message":"hello there"}\<close> read by \<open>tim\<close> comes back as it is; two
  fragments with upper-case letters between a vertical tab and a form feed come back
  lower-cased; and the split character of the counterexample raises.
\<close>

theorem passthrough_of_parsed_message:
  \<open>(decode_all buff = Inr decoded \<and>
      json_loads (lower U (strip (concat decoded))) = Some jsonify \<and>
      subscript jsonify (lit ''sender'') = Inr (PStr s) \<and>
      subscript jsonify (lit ''message'') = Inr (PStr m) \<and>
      s \<noteq> self_id \<and> m \<noteq> lit ''greet'' \<and> m \<noteq> lit ''joke'' \<longrightarrow>
      utf8 (concat (map (map of_char) buff)) = Some (concat decoded) \<and>
      process_message U self_id prov buff = Inr (Some \<lparr>sender = s, message = m\<rparr>)) \<and>
   (decode_all buff = Inl e \<longrightarrow> process_message U self_id prov buff = Inl UnicodeDecodeError) \<and>
   process_message U (lit ''tim'') prov [''{"sender":"alex","message":"hello there"}''] =
     Inr (Some \<lparr>sender = lit ''alex'', message = lit ''hello there''\<rparr>) \<and>
   process_message U (lit ''tim'') prov
       [CHR 0x0B # ''{"SENDER":"Alex",'', '' "MESSAGE":"Hello There"}'' @ [CHR 0x0C]] =
     Inr (Some \<lparr>sender = lit ''alex'', message = lit ''hello there''\<rparr>) \<and>
   process_message U (lit ''tim'') prov
       [''{"sender":"alex","message":"caf'' @ [CHR 0xC3], CHR 0xA9 # ''"}''] =
     Inl UnicodeDecodeError\<close>
proof (intro conjI impI)
  assume a: "decode_all buff = Inr decoded \<and>
      json_loads (lower U (strip (concat decoded))) = Some jsonify \<and>
      subscript jsonify (lit ''sender'') = Inr (PStr s) \<and>
      subscript jsonify (lit ''message'') = Inr (PStr m) \<and>
      s \<noteq> self_id \<and> m \<noteq> lit ''greet'' \<and> m \<noteq> lit ''joke''"
  then show "utf8 (concat (map (map of_char) buff)) = Some (concat decoded)"
    using decode_all_concat by blast
  have "decode_batch U buff = Inr (jsonify, \<lparr>sender = s, message = m\<rparr>)"
    using a decode_batchI by blast
  then show "process_message U self_id prov buff = Inr (Some \<lparr>sender = s, message = m\<rparr>)"
    using a by (simp add: process_message_def Message_init_def)
next
  assume "decode_all buff = Inl e"
  then show "process_message U self_id prov buff = Inl UnicodeDecodeError"
    using decode_all_Inl[of buff e] by (simp add: process_message_def decode_batch_def)
next
  show \<open>process_message U (lit ''tim'') prov [''{"sender":"alex","message":"hello there"}''] =
     Inr (Some \<lparr>sender = lit ''alex'', message = lit ''hello there''\<rparr>)\<close>
    by (rule process_hello_example)
next
  show \<open>process_message U (lit ''tim'') prov
       [CHR 0x0B # ''{"SENDER":"Alex",'', '' "MESSAGE":"Hello There"}'' @ [CHR 0x0C]] =
     Inr (Some \<lparr>sender = lit ''alex'', message = lit ''hello there''\<rparr>)\<close>
    by (rule process_padded_example)
next
  show \<open>process_message U (lit ''tim'') prov
       [''{"sender":"alex","message":"caf'' @ [CHR 0xC3], CHR 0xA9 # ''"}''] =
     Inl UnicodeDecodeError\<close>
    by (rule process_split_example)
qed

theorem passthrough_of_parsed_message_witness:
  \<open>decode_all [CHR 0x0B # ''{"SENDER":"Alex",'', '' "MESSAGE":"Hello There"}'' @ [CHR 0x0C]] =
     Inr [0x0B # lit ''{"SENDER":"Alex",'', lit '' "MESSAGE":"Hello There"}'' @ [0x0C]] \<and>
   json_loads (lower id (strip (concat
       [0x0B # lit ''{"SENDER":"Alex",'', lit '' "MESSAGE":"Hello There"}'' @ [0x0C]]))) =
     Some (PDict [(lit ''sender'', PStr (lit ''alex'')),
                  (lit ''message'', PStr (lit ''hello there''))]) \<and>
   lit ''alex'' \<noteq> lit ''tim'' \<and> lit ''hello there'' \<noteq> lit ''greet'' \<and>
   lit ''hello there'' \<noteq> lit ''joke'' \<and>
   utf8 (concat (map (map of_char)
       [CHR 0x0B # ''{"SENDER":"Alex",'', '' "MESSAGE":"Hello There"}'' @ [CHR 0x0C]])) =
     Some (concat [0x0B # lit ''{"SENDER":"Alex",'', lit '' "MESSAGE":"Hello There"}'' @ [0x0C]]) \<and>
   process_message id (lit ''tim'') (Inl ConnectionError)
       [CHR 0x0B # ''{"SENDER":"Alex",'', '' "MESSAGE":"Hello There"}'' @ [CHR 0x0C]] =
     Inr (Some \<lparr>sender = lit ''alex'', message = lit ''hello there''\<rparr>) \<and>
   decode_all [''{"sender":"alex","message":"caf'' @ [CHR 0xC3, CHR 0xA9] @ ''"}''] =
     Inr [lit ''{"sender":"alex","message":"caf'' @ 0xE9 # lit ''"}''] \<and>
   json_loads (lower id (strip (concat [lit ''{"sender":"alex","message":"caf'' @ 0xE9 # lit ''"}'']))) =
     Some (PDict [(lit ''sender'', PStr (lit ''alex'')),
                  (lit ''message'', PStr (lit ''caf'' @ [0xE9]))]) \<and>
   process_message id (lit ''tim'') (Inl ConnectionError)
       [''{"sender":"alex","message":"caf'' @ [CHR 0xC3, CHR 0xA9] @ ''"}''] =
     Inr (Some \<lparr>sender = lit ''alex'', message = lit ''caf'' @ [0xE9]\<rparr>) \<and>
   decode_all [[CHR 0xFF]] = Inl UnicodeDecodeError \<and>
   process_message id (lit ''tim'') (Inl ConnectionError) [[CHR 0xFF]] = Inl UnicodeDecodeError\<close>
proof -
  note p = passthrough_of_parsed_message[of
      \<open>[CHR 0x0B # ''{"SENDER":"Alex",'', '' "MESSAGE":"Hello There"}'' @ [CHR 0x0C]]\<close>
      \<open>[0x0B # lit ''{"SENDER":"Alex",'', lit '' "MESSAGE":"Hello There"}'' @ [0x0C]]\<close>
      id "PDict [(lit ''sender'', PStr (lit ''alex'')), (lit ''message'', PStr (lit ''hello there''))]"
      "lit ''alex''" "lit ''hello there''" "lit ''tim''" "Inl ConnectionError"]
  note q = passthrough_of_parsed_message[of
      \<open>[''{"sender":"alex","message":"caf'' @ [CHR 0xC3, CHR 0xA9] @ ''"}'']\<close>
      \<open>[lit ''{"sender":"alex","message":"caf'' @ 0xE9 # lit ''"}'']\<close>
      id "PDict [(lit ''sender'', PStr (lit ''alex'')), (lit ''message'', PStr (lit ''caf'' @ [0xE9]))]"
      "lit ''alex''" "lit ''caf'' @ [0xE9]" "lit ''tim''" "Inl ConnectionError"]
  note r = passthrough_of_parsed_message[of \<open>[[CHR 0xFF]]\<close> _ id _ _ _ "lit ''tim''"
      "Inl ConnectionError" UnicodeDecodeError]
  have l: \<open>json_loads (lower id (strip (concat [lit ''{"sender":"alex","message":"caf'' @ 0xE9 # lit ''"}'']))) =
     Some (PDict [(lit ''sender'', PStr (lit ''alex'')),
                  (lit ''message'', PStr (lit ''caf'' @ [0xE9]))])\<close>
    using loads_split_example by simp
  have 1: \<open>utf8 (concat (map (map of_char)
       [CHR 0x0B # ''{"SENDER":"Alex",'', '' "MESSAGE":"Hello There"}'' @ [CHR 0x0C]])) =
     Some (concat [0x0B # lit ''{"SENDER":"Alex",'', lit '' "MESSAGE":"Hello There"}'' @ [0x0C]]) \<and>
   process_message id (lit ''tim'') (Inl ConnectionError)
       [CHR 0x0B # ''{"SENDER":"Alex",'', '' "MESSAGE":"Hello There"}'' @ [CHR 0x0C]] =
     Inr (Some \<lparr>sender = lit ''alex'', message = lit ''hello there''\<rparr>)\<close>
    using p decode_all_padded_example loads_padded_example[of id] hello_fields names_differ
    by blast
  have 2: \<open>process_message id (lit ''tim'') (Inl ConnectionError)
       [''{"sender":"alex","message":"caf'' @ [CHR 0xC3, CHR 0xA9] @ ''"}''] =
     Inr (Some \<lparr>sender = lit ''alex'', message = lit ''caf'' @ [0xE9]\<rparr>)\<close>
    using q decode_all_accent_example l accent_fields names_differ(1) accent_differs
    by blast
  have 3: \<open>process_message id (lit ''tim'') (Inl ConnectionError) [[CHR 0xFF]] =
     Inl UnicodeDecodeError\<close>
    using r decode_all_undecodable_example by blast
  show ?thesis
    using 1 2 3 decode_all_padded_example loads_padded_example[of id] names_differ
      decode_all_accent_example l decode_all_undecodable_example
    by blast
qed

text \<open>
  C6. Malformed input. As stated the claim fails: the processor parses the stripped,
  lower-cased text, not the bytes of the batch. A batch whose JSON object has the keys
  \<open>SENDER\<close> and \<open>MESSAGE\<close> but neither \<open>sender\<close> nor \<open>message\<close>, and a batch that is not
  JSON at all because it holds \<open>NULL\<close>, both get a response.
\<close>

theorem malformed_input_counterexample:
  \<open>decode_all [''{"SENDER":"ALEX","MESSAGE":"GREET"}''] =
     Inr [lit ''{"SENDER":"ALEX","MESSAGE":"GREET"}''] \<and>
   json_loads (lit ''{"SENDER":"ALEX","MESSAGE":"GREET"}'') =
     Some (PDict [(lit ''SENDER'', PStr (lit ''ALEX'')), (lit ''MESSAGE'', PStr (lit ''GREET''))]) \<and>
   map_of (rev [(lit ''SENDER'', PStr (lit ''ALEX'')), (lit ''MESSAGE'', PStr (lit ''GREET''))])
     (lit ''sender'') = None \<and>
   map_of (rev [(lit ''SENDER'', PStr (lit ''ALEX'')), (lit ''MESSAGE'', PStr (lit ''GREET''))])
     (lit ''message'') = None \<and>
   process_message id (lit ''tim'') (Inl ConnectionError) [''{"SENDER":"ALEX","MESSAGE":"GREET"}''] =
     Inr (Some \<lparr>sender = lit ''alex'', message = lit ''alex says hi!''\<rparr>) \<and>
   decode_all [''{"sender":"alex","message":"hi","k":NULL}''] =
     Inr [lit ''{"sender":"alex","message":"hi","k":NULL}''] \<and>
   json_loads (lit ''{"sender":"alex","message":"hi","k":NULL}'') = None \<and>
   process_message id (lit ''tim'') (Inl ConnectionError)
       [''{"sender":"alex","message":"hi","k":NULL}''] =
     Inr (Some \<lparr>sender = lit ''alex'', message = lit ''hi''\<rparr>)\<close>
  using raw_upper_keys_example process_upper_keys_example[of id "Inl ConnectionError"]
    raw_upper_null_example process_upper_null_example[of id "Inl ConnectionError"]
  by simp

text \<open>
  C6, amended. A batch with a fragment that is not UTF-8, a batch whose stripped,
  lower-cased text (the text the processor parses) is not JSON, and a batch for which the
  object parsed from that text lacks the key \<open>sender\<close> or the key \<open>message\<close> each make
  \<open>_process_message\<close> raise (\<open>UnicodeDecodeError\<close>, \<open>JSONDecodeError\<close>, \<open>KeyError\<close>: the
  decode errors) and so return no message at all. So the byte \<open>0xFF\<close> raises the first,
  a message \<open>NaN\<close> (which \<open>json.loads\<close> reads, but not once it is lower-cased) the second,
  and an object without \<open>message\<close> behind a vertical tab the third.
\<close>

theorem malformed_input_raises:
  \<open>(decode_all buff = Inl e \<longrightarrow> process_message U self_id prov buff = Inl UnicodeDecodeError) \<and>
   (decode_all buff = Inr decoded \<and> json_loads (lower U (strip (concat decoded))) = None \<longrightarrow>
      process_message U self_id prov buff = Inl JSONDecodeError) \<and>
   (decode_all buff = Inr decoded \<and>
      json_loads (lower U (strip (concat decoded))) = Some (PDict kvs) \<and>
      (map_of (rev kvs) (lit ''sender'') = None \<or> map_of (rev kvs) (lit ''message'') = None) \<longrightarrow>
      process_message U self_id prov buff = Inl KeyError) \<and>
   process_message U (lit ''tim'') prov [[CHR 0xFF]] = Inl UnicodeDecodeError \<and>
   process_message U (lit ''tim'') prov [''{"sender":"alex","message":NaN}''] = Inl JSONDecodeError \<and>
   process_message U (lit ''tim'') prov [CHR 0x0B # ''{"sender":"alex"}''] = Inl KeyError\<close>
proof -
  have g: "(decode_all b = Inl x \<longrightarrow> process_message U i prov b = Inl UnicodeDecodeError) \<and>
   (decode_all b = Inr d \<and> json_loads (lower U (strip (concat d))) = None \<longrightarrow>
      process_message U i prov b = Inl JSONDecodeError) \<and>
   (decode_all b = Inr d \<and>
      json_loads (lower U (strip (concat d))) = Some (PDict k) \<and>
      (map_of (rev k) (lit ''sender'') = None \<or> map_of (rev k) (lit ''message'') = None) \<longrightarrow>
      process_message U i prov b = Inl KeyError)"
    for b x d k i
    using decode_all_Inl[of b x]
    by (auto simp: process_message_def decode_batch_def split: sum.splits option.splits)
  have 1: \<open>process_message U (lit ''tim'') prov [[CHR 0xFF]] = Inl UnicodeDecodeError\<close>
    using g[of \<open>[[CHR 0xFF]]\<close> UnicodeDecodeError "lit ''tim''"] decode_all_undecodable_example
    by blast
  have 2: \<open>process_message U (lit ''tim'') prov [''{"sender":"alex","message":NaN}''] =
     Inl JSONDecodeError\<close>
    using g[of \<open>[''{"sender":"alex","message":NaN}'']\<close> _ "lit ''tim''"
        \<open>[lit ''{"sender":"alex","message":NaN}'']\<close>]
      decode_all_nan_example loads_nan_example[of U] by blast
  have 3: \<open>process_message U (lit ''tim'') prov [CHR 0x0B # ''{"sender":"alex"}''] = Inl KeyError\<close>
    using g[of \<open>[CHR 0x0B # ''{"sender":"alex"}'']\<close> _ "lit ''tim''"
        \<open>[0x0B # lit ''{"sender":"alex"}'']\<close> "[(lit ''sender'', PStr (lit ''alex''))]"]
      decode_all_padded_nomessage_example loads_padded_nomessage_example[of U] nomessage_lookup
    by blast
  show ?thesis
    using g[of buff e self_id decoded kvs] 1 2 3 by blast
qed

theorem malformed_input_raises_witness:
  \<open>decode_all [[CHR 0xFF]] = Inl UnicodeDecodeError \<and>
   process_message id (lit ''tim'') (Inl ConnectionError) [[CHR 0xFF]] = Inl UnicodeDecodeError \<and>
   decode_all [''{"sender":"alex","message":NaN}''] =
     Inr [lit ''{"sender":"alex","message":NaN}''] \<and>
   json_loads (lower id (strip (concat [lit ''{"sender":"alex","message":NaN}'']))) = None \<and>
   process_message id (lit ''tim'') (Inl ConnectionError) [''{"sender":"alex","message":NaN}''] =
     Inl JSONDecodeError \<and>
   decode_all [CHR 0x0B # ''{"sender":"alex"}''] = Inr [0x0B # lit ''{"sender":"alex"}''] \<and>
   json_loads (lower id (strip (concat [0x0B # lit ''{"sender":"alex"}'']))) =
     Some (PDict [(lit ''sender'', PStr (lit ''alex''))]) \<and>
   map_of (rev [(lit ''sender'', PStr (lit ''alex''))]) (lit ''message'') = None \<and>
   process_message id (lit ''tim'') (Inl ConnectionError) [CHR 0x0B # ''{"sender":"alex"}''] =
     Inl KeyError\<close>
  using malformed_input_raises[of \<open>[[CHR 0xFF]]\<close> UnicodeDecodeError id "lit ''tim''"
      "Inl ConnectionError"]
    malformed_input_raises[of \<open>[''{"sender":"alex","message":NaN}'']\<close> _ id "lit ''tim''"
      "Inl ConnectionError" \<open>[lit ''{"sender":"alex","message":NaN}'']\<close>]
    malformed_input_raises[of \<open>[CHR 0x0B # ''{"sender":"alex"}'']\<close> _ id "lit ''tim''"
      "Inl ConnectionError" \<open>[0x0B # lit ''{"sender":"alex"}'']\<close>
      "[(lit ''sender'', PStr (lit ''alex''))]"]
    decode_all_undecodable_example decode_all_nan_example loads_nan_example[of id]
    decode_all_padded_nomessage_example loads_padded_nomessage_example[of id] nomessage_lookup
  by blast

text \<open>
  C7. Joke provider failure: for a batch that resolves the \<open>joke\<close> command (the sender is
  not the client, the message is exactly \<open>joke\<close>), an exception raised by the provider
  call leaves \<open>_process_message\<close> as it is, and so does any exception \<open>_tell_joke\<close> raises
  on the provider's answer; no fallback message is returned.
\<close>

theorem joke_failure_propagates:
  assumes "decode_batch U buff = Inr (jsonify, incoming)"
    and "sender incoming \<noteq> self_id"
    and "message incoming = lit ''joke''"
  shows "process_message U self_id (Inl e) buff = Inl e \<and>
         (tell_joke prov = Inl e' \<longrightarrow> process_message U self_id prov buff = Inl e')"
  using assms decode_batch_fields(2)[OF assms(1)] greet_is_not_joke
  by (auto simp: process_message_def tell_joke_def)

theorem joke_failure_propagates_witness:
  \<open>decode_batch id [''{"sender":"alex","message":"joke"}''] =
     Inr (PDict [(lit ''sender'', PStr (lit ''alex'')), (lit ''message'', PStr (lit ''joke''))],
          \<lparr>sender = lit ''alex'', message = lit ''joke''\<rparr>) \<and>
   lit ''alex'' \<noteq> lit ''tim'' \<and>
   process_message id (lit ''tim'') (Inl ConnectionError) [''{"sender":"alex","message":"joke"}''] =
     Inl ConnectionError \<and>
   tell_joke (Inr (lit ''Service Unavailable'')) = Inl JSONDecodeError \<and>
   process_message id (lit ''tim'') (Inr (lit ''Service Unavailable''))
       [''{"sender":"alex","message":"joke"}''] = Inl JSONDecodeError\<close>
  using joke_failure_propagates[OF decode_joke_example, of "lit ''tim''" id ConnectionError
      "Inr (lit ''Service Unavailable'')" JSONDecodeError]
    decode_joke_example[of id] names_differ(1) tell_joke_bad_body_example
  by simp

text \<open>
  C8. Read-loop error containment. The handler of \<open>MyReader.read\<close> calls \<open>logging.error\<close>,
  but \<open>reader.py\<close> never imports \<open>logging\<close>: a decode error, a provider error and a broker
  error each end \<open>reader.read\<close> with a \<open>NameError\<close>, which nothing in \<open>MyChatter.read\<close>
  catches. Here the first batch is not JSON: the loop ends on it, the greeting queued
  behind it is never read or printed, and the reader is never taken offline.
\<close>

theorem read_error_ends_the_read_loop:
  \<open>reader_read U (lit ''tim'') p (Inr [''hello'']) = Inl NameError \<and>
   reader_read U (lit ''tim'') (Inl ConnectionError)
     (Inr [''{"sender":"alex","message":"joke"}'']) = Inl NameError \<and>
   reader_read U (lit ''tim'') p (Inl BrokerError) = Inl NameError \<and>
   chatter_read U (lit ''tim'')
     [\<lparr>running = True, answer = Inr [''hello''], provider = p\<rparr>,
      \<lparr>running = True, answer = Inr [''{"sender":"alex","message":"greet"}''], provider = p\<rparr>,
      \<lparr>running = False, answer = Inr [], provider = p\<rparr>]
     start =
   \<lparr>console = [], reads = 1, offline = 0, ending = Raised NameError\<rparr>\<close>
  by (simp add: reader_read_raises[OF read_try_nonjson_example]
        reader_read_raises[OF read_try_joke_example]
        reader_read_raises[OF read_try_broker_example] start_def reader_close_def)

text \<open>
  C9. Shutdown. After the flag is cleared the loop makes no further call of \<open>reader.read\<close>,
  and when the read in flight returns it takes the reader offline once. When that read
  raises (here a broker error, turned into the \<open>NameError\<close> of the handler), the loop is
  left by the exception and the reader is never taken offline.
\<close>

theorem shutdown_after_failed_read_skips_close:
  \<open>chatter_read U (lit ''tim'')
     [\<lparr>running = True, answer = Inr [], provider = p\<rparr>,
      \<lparr>running = False, answer = a, provider = p\<rparr>]
     start =
   \<lparr>console = [], reads = 1, offline = 1, ending = Returned\<rparr> \<and>
   chatter_read U (lit ''tim'')
     [\<lparr>running = True, answer = Inl BrokerError, provider = p\<rparr>,
      \<lparr>running = False, answer = a, provider = p\<rparr>]
     start =
   \<lparr>console = [], reads = 1, offline = 0, ending = Raised NameError\<rparr>\<close>
  by (simp add: reader_read_raises[OF read_try_broker_example]
        reader_read_returns[OF read_try_empty_example] start_def reader_close_def)

text \<open>
  C10. Outbound normalisation: while the flag is set, the write loop publishes, for the
  lines typed in order, exactly the serialised messages whose message field is the line
  stripped and then lower-cased, leaving out the lines for which that text is empty. For
  an ASCII line that text is in normal form: lower-casing it or stripping it again changes
  nothing, and it is empty exactly when the stripped line is.
\<close>

theorem write_loop_publishes_normalised_lines:
  "chatter_write U self_id (map (Pair True) lines) stream =
     Inr (stream @
          map (\<lambda>t. map char_of (Message_json \<lparr>sender = self_id, message = t\<rparr>))
            (filter (\<lambda>t. t \<noteq> []) (map (\<lambda>l. lower U (strip l)) lines))) \<and>
   (isascii line \<longrightarrow>
      lower U (lower U (strip line)) = lower U (strip line) \<and>
      strip (lower U (strip line)) = lower U (strip line) \<and>
      (lower U (strip line) = [] \<longleftrightarrow> strip line = []))"
  using chatter_write_published[of U self_id lines stream] normalised_ascii(2,3,4)[of line U]
  by blast

theorem write_loop_publishes_normalised_lines_witness:
  \<open>isascii (lit ''  Hello World '') \<and>
   chatter_write id (lit ''tim'') [(True, lit ''  Hello World ''), (True, lit ''   '')] [] =
     Inr [''{"sender": "tim", "message": "hello world"}''] \<and>
   lower id (lit ''hello world'') = lit ''hello world'' \<and>
   strip (lit ''hello world'') = lit ''hello world'' \<and>
   strip (lit ''  Hello World '') \<noteq> []\<close>
  using write_loop_publishes_normalised_lines[of id "lit ''tim''"
      "[lit ''  Hello World '', lit ''   '']" "[]" "lit ''  Hello World ''"]
    normalise_example wire_example
  by simp

end
